theory Spec2Isabelle
  imports Complex_Main
begin

section \<open>The Hyundai car controller: data model\<close>

text \<open>
  A shallow embedding of \<^verbatim>\<open>opendbc/car/hyundai/carcontroller.py\<close>.
  Python floats are read as real numbers: every bound below is a statement of exact
  arithmetic. Python integers (the frame counter) are \<^typ>\<open>int\<close>.
  Exceptions are values of the type \<open>error\<close>, on the left of a sum.
\<close>

datatype error = ZeroDivisionError | ValueError

datatype HyundaiFlags =
    CANFD | CANFD_ANGLE_STEERING | CANFD_CAMERA_SCC | CANFD_LKA_STEERING
  | CANFD_LKA_STEERING_ALT | CANFD_ALT_BUTTONS | ENABLE_BLINKERS | USE_FCA | SEND_LFA

datatype Buttons = RES_ACCEL | CANCEL

datatype LongCtrlState = off | pid | stopping | starting

datatype bus = Bus0 | ECAN

text \<open>
  The outbound messages. The bit-level payload is built by encoders outside this file, so a
  message is its builder's name with the arguments the controller computes itself. A builder
  that returns several frames (\<^verbatim>\<open>create_acc_commands\<close>, \<^verbatim>\<open>create_acc_opt\<close>,
  \<^verbatim>\<open>create_steering_messages\<close>, ...) is one entry: one batch.
\<close>

datatype can_msg =
    TesterPresent int bus
  | Lkas11 real bool bool
  | Clu11 Buttons
  | AccCommands real real
  | LfahdaMfc
  | AccOpt
  | FrtRadarOpt
  | AdasDrvIntercept
  | SteeringMessages bool real real
  | SuppressLfa
  | LfahdaCluster
  | SpasMessages bool bool
  | AdrvMessages int
  | FcaWarningLight int
  | AccControl real real
  | AccCancel
  | CanfdButtons int Buttons

text \<open>
  \<^verbatim>\<open>CarControllerParams\<close> lives in \<^verbatim>\<open>values.py\<close>: the constants that the
  controller reads from it are fields of a record, so every theorem holds for any value of
  them.
\<close>

record CarControllerParams =
  STEER_MAX :: real
  ACCEL_MIN :: real
  ACCEL_MAX :: real
  STEER_ANGLE_MAX :: real
  SMOOTHING_ANGLE_VEGO_MATRIX :: "real list"
  SMOOTHING_ANGLE_ALPHA_MATRIX :: "real list"
  SMOOTHING_ANGLE_MAX_VEGO :: real

text \<open>
  What \<^verbatim>\<open>__init__\<close> fixes for the session and no tick changes: the car parameters, the
  tuning values, the vehicle model and the two helpers of \<^verbatim>\<open>opendbc.car\<close> that the torque
  path calls (\<^verbatim>\<open>common_fault_avoidance\<close> and \<^verbatim>\<open>apply_driver_steer_torque_limits\<close>, taken
  as parameters like the vehicle model).
\<close>

record config =
  flags :: "HyundaiFlags set"
  openpilotLongitudinalControl :: bool
  params :: CarControllerParams
  ISO_LATERAL_ACCEL :: real
  ACCELERATION_DUE_TO_GRAVITY :: real
  get_steer_from_curvature :: "real \<Rightarrow> real \<Rightarrow> real \<Rightarrow> real"
  common_fault_avoidance :: "bool \<Rightarrow> bool \<Rightarrow> int \<Rightarrow> int \<Rightarrow> int \<Rightarrow> int \<times> bool"
  apply_driver_steer_torque_limits :: "int \<Rightarrow> real \<Rightarrow> real \<Rightarrow> real"
  ramp_down_reduction_gain_rate :: real
  ramp_up_reduction_gain_rate :: real
  min_torque_reduction_gain :: real
  max_torque_reduction_gain :: real
  active_torque_reduction_gain :: real
  angle_torque_override_cycles :: int
  angle_enable_smoothing_factor :: bool

text \<open>The fields of \<^verbatim>\<open>self\<close> that a tick reads and writes.\<close>

record ctrl_state =
  frame :: int
  angle_limit_counter :: int
  accel_last :: real
  apply_torque_last :: real
  last_button_frame :: int
  apply_angle_last :: real

definition init_state :: ctrl_state where
  "init_state = \<lparr> frame = 0, angle_limit_counter = 0, accel_last = 0, apply_torque_last = 0,
                   last_button_frame = 0, apply_angle_last = 0 \<rparr>"

text \<open>
  One tick's inputs: the fields of \<^verbatim>\<open>CC\<close> and \<^verbatim>\<open>CS\<close> that the controller reads, and what
  the mixed-in sub-controllers report after their own update of this tick
  (\<^verbatim>\<open>ESCC.enabled\<close>, \<^verbatim>\<open>interceptor.available\<close>, \<^verbatim>\<open>tuning.actual_accel\<close>).
\<close>

record tick_in =
  latActive :: bool
  enabled :: bool
  leftBlinker :: bool
  rightBlinker :: bool
  act_torque :: real
  act_steeringAngleDeg :: real
  act_accel :: real
  act_longControlState :: LongCtrlState
  cruise_cancel :: bool
  cruise_resume :: bool
  cruise_override :: bool
  hud_setSpeed :: real
  vEgoRaw :: real
  steeringAngleDeg :: real
  steeringTorque :: real
  steeringPressed :: bool
  is_metric :: bool
  buttons_counter :: int
  escc_enabled :: bool
  interceptor_available :: bool
  actual_accel :: real

text \<open>The actuators echoed by a tick.\<close>

record actuators_out =
  out_torque :: real
  out_torqueOutputCan :: real
  out_steeringAngleDeg :: real
  out_accel :: real

section \<open>Numerical helpers\<close>

definition MAX_ANGLE :: real where "MAX_ANGLE = 85"
definition MAX_ANGLE_FRAMES :: int where "MAX_ANGLE_FRAMES = 89"
definition MAX_ANGLE_CONSECUTIVE_FRAMES :: int where "MAX_ANGLE_CONSECUTIVE_FRAMES = 2"
definition MAX_ANGLE_RATE :: real where "MAX_ANGLE_RATE = 5"
definition AVERAGE_ROAD_ROLL :: real where "AVERAGE_ROAD_ROLL = 0.06"

definition MAX_LATERAL_ACCEL :: "config \<Rightarrow> real" where
  "MAX_LATERAL_ACCEL c = ISO_LATERAL_ACCEL c + ACCELERATION_DUE_TO_GRAVITY c * AVERAGE_ROAD_ROLL"

definition MAX_LATERAL_JERK :: "config \<Rightarrow> real" where
  "MAX_LATERAL_JERK c = 3.0 + ACCELERATION_DUE_TO_GRAVITY c * AVERAGE_ROAD_ROLL"

text \<open>
  Modelled from the spec: \<^verbatim>\<open>DT_CTRL\<close> of \<^verbatim>\<open>opendbc.car\<close>, the period of the control loop,
  which the spec fixes at 100 Hz.
\<close>

definition DT_CTRL :: real where "DT_CTRL = 0.01"

text \<open>\<^verbatim>\<open>np.clip(x, lo, hi)\<close> is \<^verbatim>\<open>minimum(maximum(x, lo), hi)\<close>: with \<open>hi < lo\<close> it returns \<open>hi\<close>.\<close>

definition np_clip :: "real \<Rightarrow> real \<Rightarrow> real \<Rightarrow> real" where
  "np_clip x lo hi = min (max x lo) hi"

text \<open>\<^verbatim>\<open>math.degrees\<close>.\<close>

definition degrees :: "real \<Rightarrow> real" where
  "degrees x = x * (180 / pi)"

text \<open>
  Modelled from the spec: \<^verbatim>\<open>rate_limit\<close> of \<^verbatim>\<open>opendbc.car\<close>, which keeps the new value
  within the two steps around the last one (``rate-limit the smoothed angle symmetrically
  around the last commanded angle using this delta cap'').
\<close>

definition rate_limit :: "real \<Rightarrow> real \<Rightarrow> real \<Rightarrow> real \<Rightarrow> real" where
  "rate_limit new_value last_value dw_step up_step =
     np_clip new_value (last_value + dw_step) (last_value + up_step)"

text \<open>Python's \<^verbatim>\<open>round\<close> to an integer: a tie goes to the even neighbour.\<close>

definition py_round :: "real \<Rightarrow> int" where
  "py_round x =
     (let f = \<lfloor>x\<rfloor>; d = x - of_int f
      in if d < 1 / 2 then f else if 1 / 2 < d then f + 1 else if even f then f else f + 1)"

text \<open>
  A Python float is an IEEE 754 double. The reals of this development stand for the values
  of the doubles, and the arithmetic is exact, except where the code takes a branch on a
  computed value compared with a constant: there the rounding of the operation is written
  out. \<open>round_double x\<close> is the double nearest to \<open>x\<close>, a tie going to the even mantissa:
  \<open>x\<close> is rounded to a multiple of \<open>2 ^ (e - 52)\<close>, where \<open>2 ^ e \<le> \<bar>x\<bar> < 2 ^ (e + 1)\<close>
  and \<open>e\<close> is at least \<open>- 1022\<close> (below, the subnormal doubles are the multiples of
  \<open>2 ^ - 1074\<close>). \<open>exp_search\<close> finds \<open>e\<close>, counting up from \<open>- 1022\<close> to at most 1023.
  The overflow to infinity, from \<open>2 ^ 1024\<close> on, is not modelled: the values rounded here are
  differences of angles.
\<close>

fun exp_search :: "nat \<Rightarrow> int \<Rightarrow> real \<Rightarrow> int" where
  "exp_search 0 e a = e"
| "exp_search (Suc n) e a = (if 2 powi (e + 1) \<le> a then exp_search n (e + 1) a else e)"

definition double_exponent :: "real \<Rightarrow> int" where
  "double_exponent x = exp_search 2045 (- 1022) \<bar>x\<bar>"

definition round_double :: "real \<Rightarrow> real" where
  "round_double x =
     (let q = 2 powi (double_exponent x - 52) in of_int (py_round (x / q)) * q)"

text \<open>
  The subtraction \<^verbatim>\<open>a - b\<close> of two floats: the double nearest to the difference of the two
  doubles. A real that is not a double is read as the double nearest to it, as Python
  reads a decimal literal.
\<close>

definition float_sub :: "real \<Rightarrow> real \<Rightarrow> real" where
  "float_sub a b = round_double (round_double a - round_double b)"

text \<open>
  \<^verbatim>\<open>np.interp(x, xp, fp)\<close> for increasing \<open>xp\<close>: the value of \<open>fp\<close> at the first breakpoint left
  of \<open>xp\<close>'s range, at the last one right of it, and on the segment \<open>xp[j] \<le> x < xp[j+1]\<close> the
  line through the two breakpoints. An empty table or tables of different lengths raise
  \<^verbatim>\<open>ValueError\<close>. The scan is only entered with \<open>x\<close> inside the range; its last two
  equations are never reached from \<open>np_interp\<close>.
\<close>

fun interp_scan :: "real \<Rightarrow> real list \<Rightarrow> real list \<Rightarrow> real" where
  "interp_scan x (x0 # x1 # xs) (y0 # y1 # ys) =
     (if x < x1 then (y1 - y0) / (x1 - x0) * (x - x0) + y0
      else interp_scan x (x1 # xs) (y1 # ys))"
| "interp_scan x xs (y0 # ys) = y0"
| "interp_scan x xs [] = 0"

definition np_interp :: "real \<Rightarrow> real list \<Rightarrow> real list \<Rightarrow> error + real" where
  "np_interp x xp fp =
     (if xp = [] \<or> length xp \<noteq> length fp then Inl ValueError
      else if x < hd xp then Inr (hd fp)
      else if last xp \<le> x then Inr (last fp)
      else Inr (interp_scan x xp fp))"

section \<open>The steering angle limiter\<close>

definition get_max_angle_delta :: "real \<Rightarrow> config \<Rightarrow> real \<Rightarrow> error + real" where
  "get_max_angle_delta v_ego_raw c freq =
     (if v_ego_raw ^ 2 = 0 \<or> freq = 0 then Inl ZeroDivisionError
      else let max_curvature_rate_sec = MAX_LATERAL_JERK c / (v_ego_raw ^ 2);
               max_angle_rate_sec = degrees (get_steer_from_curvature c max_curvature_rate_sec v_ego_raw 0)
           in Inr (max_angle_rate_sec / freq))"

definition get_max_angle :: "real \<Rightarrow> config \<Rightarrow> error + real" where
  "get_max_angle v_ego_raw c =
     (if v_ego_raw ^ 2 = 0 then Inl ZeroDivisionError
      else let max_curvature = MAX_LATERAL_ACCEL c / (v_ego_raw ^ 2)
           in Inr (degrees (get_steer_from_curvature c max_curvature v_ego_raw 0)))"

text \<open>
  \<^verbatim>\<open>sp_smooth_angle\<close>. The dead-zone test \<^verbatim>\<open>abs(apply_angle - apply_angle_last) > 0.1\<close>
  compares the rounded difference of the two floats with the double nearest to 0.1, which
  is \<open>3602879701896397 / 2 ^ 55\<close>, a little above one tenth.
\<close>

definition sp_smooth_angle :: "CarControllerParams \<Rightarrow> real \<Rightarrow> real \<Rightarrow> real \<Rightarrow> error + real" where
  "sp_smooth_angle P v_ego_raw apply_angle apply_angle_last' =
     (if \<bar>float_sub apply_angle apply_angle_last'\<bar> > round_double 0.1 then
        (case np_interp v_ego_raw (SMOOTHING_ANGLE_VEGO_MATRIX P) (SMOOTHING_ANGLE_ALPHA_MATRIX P) of
           Inl e \<Rightarrow> Inl e
         | Inr adjusted_alpha \<Rightarrow>
             let adjusted_alpha_limited = min adjusted_alpha 1
             in Inr (apply_angle * adjusted_alpha_limited
                     + apply_angle_last' * (1 - adjusted_alpha_limited)))
      else Inr apply_angle)"

text \<open>
  The first two steps of the limiter: the clamp to the encodable range, then the smoothing
  when it is enabled and the speed is below the threshold.
\<close>

definition smoothed_apply_angle :: "config \<Rightarrow> ctrl_state \<Rightarrow> tick_in \<Rightarrow> real \<Rightarrow> error + real" where
  "smoothed_apply_angle c s i apply_angle =
     (let apply_angle = np_clip apply_angle (- 819.2) 819.1
      in if angle_enable_smoothing_factor c \<and> \<bar>vEgoRaw i\<bar> < SMOOTHING_ANGLE_MAX_VEGO (params c)
         then sp_smooth_angle (params c) (vEgoRaw i) apply_angle (apply_angle_last s)
         else Inr apply_angle)"

definition apply_hyundai_steer_angle_limits :: "config \<Rightarrow> ctrl_state \<Rightarrow> tick_in \<Rightarrow> real \<Rightarrow> error + real" where
  "apply_hyundai_steer_angle_limits c s i apply_angle =
     (case smoothed_apply_angle c s i apply_angle of
        Inl e \<Rightarrow> Inl e
      | Inr apply_angle \<Rightarrow>
     (case get_max_angle_delta (max (vEgoRaw i) 1) c 100 of
        Inl e \<Rightarrow> Inl e
      | Inr max_angle_delta \<Rightarrow>
     (let max_angle_delta = min max_angle_delta MAX_ANGLE_RATE;
          new_apply_angle = rate_limit apply_angle (apply_angle_last s) (- max_angle_delta) max_angle_delta
      in case get_max_angle (max (vEgoRaw i) 1) c of
        Inl e \<Rightarrow> Inl e
      | Inr max_angle \<Rightarrow>
     (let new_apply_angle = np_clip new_apply_angle (- max_angle) max_angle;
          new_apply_angle = (if \<not> latActive i then steeringAngleDeg i else new_apply_angle)
      in Inr (np_clip new_apply_angle (- STEER_ANGLE_MAX (params c)) (STEER_ANGLE_MAX (params c)))))))"

section \<open>The torque-reduction gain\<close>

definition calculate_angle_torque_reduction_gain :: "config \<Rightarrow> ctrl_state \<Rightarrow> tick_in \<Rightarrow> real \<Rightarrow> error + real" where
  "calculate_angle_torque_reduction_gain c s i target_torque_reduction_gain =
     (if steeringPressed i then
        (if angle_torque_override_cycles c = 0 then Inl ZeroDivisionError
         else let torque_delta = apply_torque_last s - min_torque_reduction_gain c;
                  adaptive_ramp_rate = max (torque_delta / of_int (angle_torque_override_cycles c)) 0.004
              in Inr (max (apply_torque_last s - adaptive_ramp_rate) (min_torque_reduction_gain c)))
      else
        (let target_torque = np_clip target_torque_reduction_gain
                               (active_torque_reduction_gain c) (max_torque_reduction_gain c)
         in if apply_torque_last s > target_torque
            then Inr (max (apply_torque_last s - ramp_down_reduction_gain_rate c) target_torque)
            else Inr (min (apply_torque_last s + ramp_up_reduction_gain_rate c) target_torque)))"

definition update_angle_steering_control :: "config \<Rightarrow> ctrl_state \<Rightarrow> tick_in \<Rightarrow> error + (real \<times> real)" where
  "update_angle_steering_control c s i =
     (case apply_hyundai_steer_angle_limits c s i (act_steeringAngleDeg i) of
        Inl e \<Rightarrow> Inl e
      | Inr new_angle \<Rightarrow>
     (case calculate_angle_torque_reduction_gain c s i \<bar>act_torque i\<bar> of
        Inl e \<Rightarrow> Inl e
      | Inr torque_reduction_gain \<Rightarrow> Inr (new_angle, torque_reduction_gain)))"

section \<open>The cadence scheduler\<close>

text \<open>
  Both builders of the message list read the frame counter and the latches from the state
  and return the list with the state they leave: \<^verbatim>\<open>create_can_msgs\<close> may move
  \<^verbatim>\<open>last_button_frame\<close>, \<^verbatim>\<open>create_canfd_msgs\<close> also \<^verbatim>\<open>accel_last\<close>.
\<close>

definition create_can_msgs ::
  "config \<Rightarrow> ctrl_state \<Rightarrow> tick_in \<Rightarrow> bool \<Rightarrow> real \<Rightarrow> bool \<Rightarrow> real \<Rightarrow> can_msg list \<times> ctrl_state" where
  "create_can_msgs c s i apply_steer_req apply_torque torque_fault accel =
     (let can_sends = [Lkas11 apply_torque apply_steer_req torque_fault];
          (can_sends, s) =
            (if \<not> openpilotLongitudinalControl c then
               (if cruise_cancel i then (can_sends @ [Clu11 CANCEL], s)
                else if cruise_resume i then
                  (if of_int (frame s - last_button_frame s) * DT_CTRL > 0.1 then
                     (can_sends @ replicate 25 (Clu11 RES_ACCEL),
                      if of_int (frame s - last_button_frame s) * DT_CTRL \<ge> 0.15
                      then s\<lparr>last_button_frame := frame s\<rparr> else s)
                   else (can_sends, s))
                else (can_sends, s))
             else (can_sends, s));
          can_sends =
            (if frame s mod 2 = 0 \<and> openpilotLongitudinalControl c then
               (let jerk = (if act_longControlState i = pid then 3.0 else 1.0)
                in can_sends @ [AccCommands accel jerk])
             else can_sends);
          can_sends =
            (if frame s mod 5 = 0 \<and> SEND_LFA \<in> flags c then can_sends @ [LfahdaMfc] else can_sends);
          can_sends =
            (if frame s mod 20 = 0 \<and> openpilotLongitudinalControl c then can_sends @ [AccOpt]
             else can_sends);
          can_sends =
            (if frame s mod 50 = 0 \<and> openpilotLongitudinalControl c \<and> \<not> escc_enabled i
             then can_sends @ [FrtRadarOpt] else can_sends)
      in (can_sends, s))"

definition create_canfd_msgs ::
  "config \<Rightarrow> ctrl_state \<Rightarrow> tick_in \<Rightarrow> bool \<Rightarrow> real \<Rightarrow> real \<Rightarrow> can_msg list \<times> ctrl_state" where
  "create_canfd_msgs c s i apply_steer_req apply_torque accel =
     (let lka_steering = (CANFD_LKA_STEERING \<in> flags c);
          lka_steering_long = (lka_steering \<and> openpilotLongitudinalControl c);
          can_sends = (if interceptor_available i then [AdasDrvIntercept] else []);
          can_sends = can_sends @ [SteeringMessages apply_steer_req apply_torque (apply_angle_last s)];
          can_sends =
            (if frame s mod 5 = 0 \<and> lka_steering then can_sends @ [SuppressLfa] else can_sends);
          can_sends =
            (if frame s mod 5 = 0 \<and> (\<not> lka_steering \<or> lka_steering_long)
             then can_sends @ [LfahdaCluster] else can_sends);
          can_sends =
            (if lka_steering \<and> ENABLE_BLINKERS \<in> flags c
             then can_sends @ [SpasMessages (leftBlinker i) (rightBlinker i)] else can_sends)
      in if openpilotLongitudinalControl c then
           (let can_sends =
                  (if lka_steering then
                     (if \<not> interceptor_available i then can_sends @ [AdrvMessages (frame s)]
                      else can_sends)
                   else can_sends @ [FcaWarningLight (frame s)])
            in if frame s mod 2 = 0
               then (can_sends @ [AccControl (accel_last s) accel], s\<lparr>accel_last := accel\<rparr>)
               else (can_sends, s))
         else
           (if of_int (frame s - last_button_frame s) * DT_CTRL > 0.25 then
              (if cruise_cancel i then
                 (if CANFD_ALT_BUTTONS \<in> flags c
                  then (can_sends @ [AccCancel], s\<lparr>last_button_frame := frame s\<rparr>)
                  else (can_sends @ replicate 20 (CanfdButtons (buttons_counter i + 1) CANCEL),
                        s\<lparr>last_button_frame := frame s\<rparr>))
               else if cruise_resume i then
                 (if CANFD_ALT_BUTTONS \<in> flags c then (can_sends, s)
                  else (can_sends @ replicate 20 (CanfdButtons (buttons_counter i + 1) RES_ACCEL),
                        s\<lparr>last_button_frame := frame s\<rparr>))
               else (can_sends, s))
            else (can_sends, s)))"

section \<open>The orchestrator\<close>

text \<open>
  The steering part of \<^verbatim>\<open>update\<close>: the state it leaves, \<^verbatim>\<open>apply_torque\<close> and
  \<^verbatim>\<open>apply_steer_req\<close>, before the override for an inactive tick.
\<close>

definition steering_control :: "config \<Rightarrow> ctrl_state \<Rightarrow> tick_in \<Rightarrow> error + (ctrl_state \<times> real \<times> bool)" where
  "steering_control c s i =
     (if CANFD_ANGLE_STEERING \<notin> flags c then
        (let (cnt, apply_steer_req) =
               common_fault_avoidance c (\<bar>steeringAngleDeg i\<bar> \<ge> MAX_ANGLE) (latActive i)
                 (angle_limit_counter s) MAX_ANGLE_FRAMES MAX_ANGLE_CONSECUTIVE_FRAMES;
             new_torque = py_round (act_torque i * STEER_MAX (params c));
             apply_torque = apply_driver_steer_torque_limits c new_torque (apply_torque_last s)
                              (steeringTorque i)
         in Inr (s\<lparr>angle_limit_counter := cnt\<rparr>, apply_torque, apply_steer_req))
      else
        (case update_angle_steering_control c s i of
           Inl e \<Rightarrow> Inl e
         | Inr (new_angle, gain) \<Rightarrow>
             (let apply_torque = np_clip gain (min_torque_reduction_gain c) (max_torque_reduction_gain c)
              in Inr (s\<lparr>apply_angle_last := new_angle\<rparr>, apply_torque,
                      latActive i \<and> apply_torque \<noteq> 0))))"

definition tester_present_msgs :: "config \<Rightarrow> ctrl_state \<Rightarrow> tick_in \<Rightarrow> can_msg list" where
  "tester_present_msgs c s i =
     (if frame s mod 100 = 0
         \<and> \<not> (CANFD_CAMERA_SCC \<in> flags c \<or> escc_enabled i \<or> interceptor_available i)
         \<and> openpilotLongitudinalControl c
      then
        (let (addr, b) = (0x7d0, if CANFD \<in> flags c then ECAN else Bus0);
             (addr, b) = (if CANFD_LKA_STEERING \<in> flags c then (0x730, ECAN) else (addr, b))
         in TesterPresent addr b
            # (if ENABLE_BLINKERS \<in> flags c then [TesterPresent 0x7b1 ECAN] else []))
      else [])"

definition update :: "config \<Rightarrow> ctrl_state \<Rightarrow> tick_in \<Rightarrow> error + (ctrl_state \<times> actuators_out \<times> can_msg list)" where
  "update c s i =
     (case steering_control c s i of
        Inl e \<Rightarrow> Inl e
      | Inr (s, apply_torque, apply_steer_req) \<Rightarrow>
     (let apply_torque = (if \<not> latActive i then 0 else apply_torque);
          torque_fault = (latActive i \<and> \<not> apply_steer_req);
          s = s\<lparr>apply_torque_last := apply_torque\<rparr>;
          accel = np_clip (act_accel i) (ACCEL_MIN (params c)) (ACCEL_MAX (params c));
          can_sends = tester_present_msgs c s i;
          (msgs, s) =
            (if CANFD \<in> flags c
             then create_canfd_msgs c s i apply_steer_req apply_torque accel
             else create_can_msgs c s i apply_steer_req apply_torque torque_fault accel);
          can_sends = can_sends @ msgs
      in if STEER_MAX (params c) = 0 then Inl ZeroDivisionError
         else Inr (s\<lparr>frame := frame s + 1\<rparr>,
                   \<lparr> out_torque = apply_torque / STEER_MAX (params c),
                     out_torqueOutputCan = apply_torque,
                     out_steeringAngleDeg = apply_angle_last s,
                     out_accel = actual_accel i \<rparr>,
                   can_sends)))"

text \<open>
  A run: the ticks of a list of inputs, one after the other, from a state. It returns the
  final state and what each tick returned, or the first exception.
\<close>

fun run :: "config \<Rightarrow> ctrl_state \<Rightarrow> tick_in list \<Rightarrow> error + (ctrl_state \<times> (actuators_out \<times> can_msg list) list)" where
  "run c s [] = Inr (s, [])"
| "run c s (i # is) =
     (case update c s i of
        Inl e \<Rightarrow> Inl e
      | Inr (s', a, m) \<Rightarrow>
          (case run c s' is of
             Inl e \<Rightarrow> Inl e
           | Inr (s'', outs) \<Rightarrow> Inr (s'', (a, m) # outs)))"

section \<open>Well-formed configurations and sample data\<close>

text \<open>
  The tables of the smoothing curve are usable by \<^verbatim>\<open>np.interp\<close>, and the two divisors of a
  tick are not zero: on such a configuration no tick raises.
\<close>

definition tables_ok :: "CarControllerParams \<Rightarrow> bool" where
  "tables_ok P \<longleftrightarrow> SMOOTHING_ANGLE_VEGO_MATRIX P \<noteq> []
     \<and> length (SMOOTHING_ANGLE_VEGO_MATRIX P) = length (SMOOTHING_ANGLE_ALPHA_MATRIX P)"

definition config_ok :: "config \<Rightarrow> bool" where
  "config_ok c \<longleftrightarrow> STEER_MAX (params c) \<noteq> 0 \<and> angle_torque_override_cycles c \<noteq> 0 \<and> tables_ok (params c)"

text \<open>
  Sample data for concrete evaluations: a neutral-steer kinematic model (steering ratio
  15, wheelbase 3 m), a fault-avoidance timer that always allows the request and a torque
  limiter that passes the target on.
\<close>

definition sample_params :: CarControllerParams where
  "sample_params = \<lparr> STEER_MAX = 270, ACCEL_MIN = - 3.5, ACCEL_MAX = 2.0, STEER_ANGLE_MAX = 180,
      SMOOTHING_ANGLE_VEGO_MATRIX = [0, 8.5, 11, 13.8, 22.22],
      SMOOTHING_ANGLE_ALPHA_MATRIX = [0.05, 0.1, 0.3, 0.6, 1],
      SMOOTHING_ANGLE_MAX_VEGO = 13.8 \<rparr>"

definition sample_config :: config where
  "sample_config = \<lparr> flags = {CANFD, CANFD_ANGLE_STEERING}, openpilotLongitudinalControl = False,
      params = sample_params, ISO_LATERAL_ACCEL = 3.0, ACCELERATION_DUE_TO_GRAVITY = 9.81,
      get_steer_from_curvature = (\<lambda>curv v roll. (curv - roll) * 45),
      common_fault_avoidance = (\<lambda>over_limit lat cnt max_frames max_consecutive. (0, lat)),
      apply_driver_steer_torque_limits = (\<lambda>new_torque last driver_torque. of_int new_torque),
      ramp_down_reduction_gain_rate = 0.1, ramp_up_reduction_gain_rate = 0.1,
      min_torque_reduction_gain = 0.1, max_torque_reduction_gain = 1,
      active_torque_reduction_gain = 1, angle_torque_override_cycles = 25,
      angle_enable_smoothing_factor = True \<rparr>"

definition sample_in :: tick_in where
  "sample_in = \<lparr> latActive = True, enabled = True, leftBlinker = False, rightBlinker = False,
      act_torque = 0.5, act_steeringAngleDeg = 10, act_accel = 0, act_longControlState = pid,
      cruise_cancel = False, cruise_resume = False, cruise_override = False, hud_setSpeed = 25,
      vEgoRaw = 20, steeringAngleDeg = 0, steeringTorque = 0, steeringPressed = False,
      is_metric = True, buttons_counter = 0, escc_enabled = False, interceptor_available = False,
      actual_accel = 0 \<rparr>"

text \<open>What a tick echoes, when it returns.\<close>

definition echoed :: "config \<Rightarrow> ctrl_state \<Rightarrow> tick_in \<Rightarrow> actuators_out option" where
  "echoed c s i = (case update c s i of Inl e \<Rightarrow> None | Inr (s', out, m) \<Rightarrow> Some out)"

text \<open>A tick without lateral control, the wheel turned beyond the static maximum.\<close>

definition inactive_in :: tick_in where
  "inactive_in = sample_in\<lparr>latActive := False, steeringAngleDeg := 200\<rparr>"

text \<open>The cruise-button messages of both buses.\<close>

fun is_button_msg :: "can_msg \<Rightarrow> bool" where
  "is_button_msg (Clu11 b) = True"
| "is_button_msg AccCancel = True"
| "is_button_msg (CanfdButtons n b) = True"
| "is_button_msg m = False"

text \<open>Sample configurations: the extended bus with alternative buttons, and a legacy-bus
  car in torque mode that manages the longitudinal control itself.\<close>

definition alt_button_config :: config where
  "alt_button_config = sample_config\<lparr>flags := {CANFD, CANFD_ALT_BUTTONS}\<rparr>"

definition torque_config :: config where
  "torque_config = sample_config\<lparr>flags := {SEND_LFA}, openpilotLongitudinalControl := True\<rparr>"

text \<open>
  The commanded angle of the tick before tick \<open>t\<close> of a run: at tick 0 the last commanded
  angle of the state the run starts from.
\<close>

definition prev_angle :: "ctrl_state \<Rightarrow> (actuators_out \<times> can_msg list) list \<Rightarrow> nat \<Rightarrow> real" where
  "prev_angle s outs t =
     (if t = 0 then apply_angle_last s else out_steeringAngleDeg (fst (outs ! (t - 1))))"

text \<open>
  The step of the override ramp in the words of the specification: the gain goes down by
  the larger of \<open>(g - minGain) / overrideCycles\<close> and 0.004, and not below \<open>minGain\<close>.
\<close>

definition ramp_step :: "real \<Rightarrow> int \<Rightarrow> real \<Rightarrow> real" where
  "ramp_step min_gain cycles g = max (g - max ((g - min_gain) / of_int cycles) 0.004) min_gain"

text \<open>
  The gain of the tick before tick \<open>t\<close> of a run: at tick 0 the last torque of the state
  the run starts from.
\<close>

definition prev_gain :: "ctrl_state \<Rightarrow> (actuators_out \<times> can_msg list) list \<Rightarrow> nat \<Rightarrow> real" where
  "prev_gain s outs t =
     (if t = 0 then apply_torque_last s else out_torqueOutputCan (fst (outs ! (t - 1))))"

text \<open>A tick with the driver pressing the wheel.\<close>

definition pressed_in :: tick_in where
  "pressed_in = sample_in\<lparr>steeringPressed := True\<rparr>"

text \<open>The kinds of messages of the legacy bus that the cadence properties count.\<close>

fun is_tester_present :: "can_msg \<Rightarrow> bool" where
  "is_tester_present (TesterPresent a b) = True"
| "is_tester_present m = False"

fun is_acc_commands :: "can_msg \<Rightarrow> bool" where
  "is_acc_commands (AccCommands a j) = True"
| "is_acc_commands m = False"

fun is_lfahda_mfc :: "can_msg \<Rightarrow> bool" where
  "is_lfahda_mfc LfahdaMfc = True"
| "is_lfahda_mfc m = False"

fun is_acc_opt :: "can_msg \<Rightarrow> bool" where
  "is_acc_opt AccOpt = True"
| "is_acc_opt m = False"

fun is_frt_radar_opt :: "can_msg \<Rightarrow> bool" where
  "is_frt_radar_opt FrtRadarOpt = True"
| "is_frt_radar_opt m = False"

fun is_resume_msg :: "can_msg \<Rightarrow> bool" where
  "is_resume_msg (Clu11 RES_ACCEL) = True"
| "is_resume_msg m = False"

text \<open>
  The ticks of a run at which a message of a kind is sent, in increasing order, and the
  number of messages of a kind over the whole run.
\<close>

definition ticks_with :: "(can_msg \<Rightarrow> bool) \<Rightarrow> (actuators_out \<times> can_msg list) list \<Rightarrow> nat list" where
  "ticks_with P outs = filter (\<lambda>t. filter P (snd (outs ! t)) \<noteq> []) [0..<length outs]"

definition count_msgs :: "(can_msg \<Rightarrow> bool) \<Rightarrow> (actuators_out \<times> can_msg list) list \<Rightarrow> nat" where
  "count_msgs P outs = length (filter P (concat (map snd outs)))"

text \<open>The messages of tick \<open>t\<close> of a run, when the run returns.\<close>

definition sent_at :: "config \<Rightarrow> ctrl_state \<Rightarrow> tick_in list \<Rightarrow> nat \<Rightarrow> can_msg list option" where
  "sent_at c s ins t = (case run c s ins of Inl e \<Rightarrow> None | Inr (s', outs) \<Rightarrow> Some (snd (outs ! t)))"

text \<open>A legacy-bus car in torque mode with the stock longitudinal control, and a tick that
  requests resume.\<close>

definition resume_config :: config where
  "resume_config = sample_config\<lparr>flags := {}\<rparr>"

definition resume_in :: tick_in where
  "resume_in = sample_in\<lparr>cruise_resume := True\<rparr>"

section \<open>Properties\<close>

subsection \<open>No exception on a well-formed configuration\<close>

lemma np_clip_bounds: "lo \<le> hi \<Longrightarrow> lo \<le> np_clip x lo hi \<and> np_clip x lo hi \<le> hi"
  by (simp add: np_clip_def)

lemma np_clip_abs: "0 \<le> m \<Longrightarrow> \<bar>np_clip x (- m) m\<bar> \<le> m"
  by (simp add: np_clip_def)

lemma np_interp_returns:
  "xp \<noteq> [] \<Longrightarrow> length xp = length fp \<Longrightarrow> \<exists>a. np_interp x xp fp = Inr a"
  by (simp add: np_interp_def)

lemma sp_smooth_angle_returns:
  "tables_ok P \<Longrightarrow> \<exists>a. sp_smooth_angle P v x l = Inr a"
  using np_interp_returns[of "SMOOTHING_ANGLE_VEGO_MATRIX P" "SMOOTHING_ANGLE_ALPHA_MATRIX P" v]
  by (auto simp: sp_smooth_angle_def tables_ok_def Let_def)

lemma smoothed_apply_angle_returns:
  "tables_ok (params c) \<Longrightarrow> \<exists>a. smoothed_apply_angle c s i x = Inr a"
  using sp_smooth_angle_returns[of "params c"]
  by (simp add: smoothed_apply_angle_def Let_def)

lemma max_one_sq_nonzero: "(max (v::real) 1) ^ 2 \<noteq> 0"
  by (simp add: max_def)

lemma get_max_angle_delta_returns:
  "get_max_angle_delta (max v 1) c 100 =
     Inr (degrees (get_steer_from_curvature c (MAX_LATERAL_JERK c / (max v 1) ^ 2) (max v 1) 0) / 100)"
  using max_one_sq_nonzero[of v] by (simp add: get_max_angle_delta_def Let_def)

lemma get_max_angle_returns:
  "get_max_angle (max v 1) c =
     Inr (degrees (get_steer_from_curvature c (MAX_LATERAL_ACCEL c / (max v 1) ^ 2) (max v 1) 0))"
  using max_one_sq_nonzero[of v] by (simp add: get_max_angle_def Let_def)

text \<open>The limiter after the smoothing, as one expression.\<close>

lemma limiter_unfold:
  assumes "smoothed_apply_angle c s i a = Inr x"
    and "get_max_angle_delta (max (vEgoRaw i) 1) c 100 = Inr d"
    and "get_max_angle (max (vEgoRaw i) 1) c = Inr M"
  shows "apply_hyundai_steer_angle_limits c s i a =
      Inr (np_clip (if \<not> latActive i then steeringAngleDeg i
                    else np_clip (rate_limit x (apply_angle_last s) (- min d MAX_ANGLE_RATE) (min d MAX_ANGLE_RATE)) (- M) M)
             (- STEER_ANGLE_MAX (params c)) (STEER_ANGLE_MAX (params c)))"
  using assms by (simp add: apply_hyundai_steer_angle_limits_def Let_def)

lemma limiter_returns:
  assumes "tables_ok (params c)"
  shows "\<exists>r. apply_hyundai_steer_angle_limits c s i a = Inr r"
proof -
  obtain x where "smoothed_apply_angle c s i a = Inr x"
    using smoothed_apply_angle_returns[OF assms] by blast
  then show ?thesis
    using limiter_unfold[OF _ get_max_angle_delta_returns get_max_angle_returns] by blast
qed

lemma limiter_bounded:
  assumes "apply_hyundai_steer_angle_limits c s i a = Inr r" and "0 \<le> STEER_ANGLE_MAX (params c)"
  shows "- STEER_ANGLE_MAX (params c) \<le> r \<and> r \<le> STEER_ANGLE_MAX (params c)"
  using assms np_clip_bounds[of "- STEER_ANGLE_MAX (params c)" "STEER_ANGLE_MAX (params c)"]
  by (auto simp: apply_hyundai_steer_angle_limits_def Let_def split: sum.splits)


lemma gain_returns:
  "angle_torque_override_cycles c \<noteq> 0 \<Longrightarrow> \<exists>g. calculate_angle_torque_reduction_gain c s i t = Inr g"
  by (simp add: calculate_angle_torque_reduction_gain_def Let_def)

lemma create_can_msgs_frame [simp]:
  "frame (snd (create_can_msgs c s i r t f a)) = frame s"
  "apply_angle_last (snd (create_can_msgs c s i r t f a)) = apply_angle_last s"
  "apply_torque_last (snd (create_can_msgs c s i r t f a)) = apply_torque_last s"
  by (simp_all add: create_can_msgs_def Let_def split_def)

lemma create_canfd_msgs_frame [simp]:
  "frame (snd (create_canfd_msgs c s i r t a)) = frame s"
  "apply_angle_last (snd (create_canfd_msgs c s i r t a)) = apply_angle_last s"
  "apply_torque_last (snd (create_canfd_msgs c s i r t a)) = apply_torque_last s"
  by (simp_all add: create_canfd_msgs_def Let_def split_def)

text \<open>What a tick returns, given what its steering part returned.\<close>

lemma update_unfold:
  assumes "steering_control c s i = Inr (s1, t, r)" and "STEER_MAX (params c) \<noteq> 0"
  shows "\<exists>s' out m. update c s i = Inr (s', out, m)
           \<and> frame s' = frame s1 + 1
           \<and> apply_angle_last s' = apply_angle_last s1
           \<and> apply_torque_last s' = (if latActive i then t else 0)
           \<and> out_steeringAngleDeg out = apply_angle_last s1
           \<and> out_torqueOutputCan out = (if latActive i then t else 0)
           \<and> out_torque out = (if latActive i then t else 0) / STEER_MAX (params c)"
  using assms by (simp add: update_def Let_def split_def)

lemma update_Inr_steering:
  assumes "update c s i = Inr (s', out, m)"
  shows "STEER_MAX (params c) \<noteq> 0 \<and> (\<exists>s1 t r. steering_control c s i = Inr (s1, t, r))"
  using assms by (auto simp: update_def Let_def split_def split: sum.splits if_splits)

lemma steering_control_angle:
  assumes "CANFD_ANGLE_STEERING \<in> flags c"
    and "apply_hyundai_steer_angle_limits c s i (act_steeringAngleDeg i) = Inr a"
    and "calculate_angle_torque_reduction_gain c s i \<bar>act_torque i\<bar> = Inr g"
  shows "steering_control c s i =
           Inr (s\<lparr>apply_angle_last := a\<rparr>,
                np_clip g (min_torque_reduction_gain c) (max_torque_reduction_gain c),
                latActive i \<and> np_clip g (min_torque_reduction_gain c) (max_torque_reduction_gain c) \<noteq> 0)"
  using assms by (simp add: steering_control_def update_angle_steering_control_def Let_def)

lemma steering_control_torque:
  assumes "CANFD_ANGLE_STEERING \<notin> flags c"
  shows "\<exists>s1 t r. steering_control c s i = Inr (s1, t, r) \<and> apply_angle_last s1 = apply_angle_last s
            \<and> frame s1 = frame s \<and> last_button_frame s1 = last_button_frame s"
  using assms by (simp add: steering_control_def Let_def split_def)

lemma steering_control_keeps:
  assumes "steering_control c s i = Inr (s1, t, r)"
  shows "frame s1 = frame s \<and> last_button_frame s1 = last_button_frame s \<and> accel_last s1 = accel_last s"
  using assms
  by (auto simp: steering_control_def Let_def split_def split: if_splits sum.splits)

lemma update_returns:
  assumes "config_ok c"
  shows "\<exists>s' out m. update c s i = Inr (s', out, m)"
proof (cases "CANFD_ANGLE_STEERING \<in> flags c")
  case True
  from assms have ok: "tables_ok (params c)" "angle_torque_override_cycles c \<noteq> 0" "STEER_MAX (params c) \<noteq> 0"
    by (simp_all add: config_ok_def)
  obtain a where a: "apply_hyundai_steer_angle_limits c s i (act_steeringAngleDeg i) = Inr a"
    using limiter_returns[OF ok(1)] by blast
  obtain g where g: "calculate_angle_torque_reduction_gain c s i \<bar>act_torque i\<bar> = Inr g"
    using gain_returns[OF ok(2)] by blast
  show ?thesis
    using update_unfold[OF steering_control_angle[OF True a g] ok(3)] by blast
next
  case False
  from assms have ok: "STEER_MAX (params c) \<noteq> 0" by (simp add: config_ok_def)
  obtain s1 t r where "steering_control c s i = Inr (s1, t, r)"
    using steering_control_torque[OF False] by blast
  then show ?thesis using update_unfold[OF _ ok] by blast
qed

subsection \<open>The commanded angle stays within the static maximum\<close>

lemma sample_config_ok: "config_ok sample_config"
  by (simp add: config_ok_def tables_ok_def sample_config_def sample_params_def)

text \<open>
  Claim C1. In angle-steering mode a tick returns, and the angle the limiter returns for it,
  which the tick echoes as the commanded angle and keeps as the last commanded angle, lies
  between minus and plus the static maximum steering angle, whatever the desired angle, the
  speed and the lateral-active flag are.
\<close>

theorem angle_command_within_static_max:
  assumes "config_ok c" and "CANFD_ANGLE_STEERING \<in> flags c" and "0 \<le> STEER_ANGLE_MAX (params c)"
  shows "\<exists>s' out m a.
           apply_hyundai_steer_angle_limits c s i (act_steeringAngleDeg i) = Inr a
         \<and> update c s i = Inr (s', out, m)
         \<and> out_steeringAngleDeg out = a \<and> apply_angle_last s' = a
         \<and> - STEER_ANGLE_MAX (params c) \<le> a \<and> a \<le> STEER_ANGLE_MAX (params c)"
proof -
  from assms(1) have ok: "tables_ok (params c)" "angle_torque_override_cycles c \<noteq> 0" "STEER_MAX (params c) \<noteq> 0"
    by (simp_all add: config_ok_def)
  obtain a where a: "apply_hyundai_steer_angle_limits c s i (act_steeringAngleDeg i) = Inr a"
    using limiter_returns[OF ok(1)] by blast
  obtain g where g: "calculate_angle_torque_reduction_gain c s i \<bar>act_torque i\<bar> = Inr g"
    using gain_returns[OF ok(2)] by blast
  obtain s' out m where u: "update c s i = Inr (s', out, m)"
      "apply_angle_last s' = apply_angle_last (s\<lparr>apply_angle_last := a\<rparr>)"
      "out_steeringAngleDeg out = apply_angle_last (s\<lparr>apply_angle_last := a\<rparr>)"
    using update_unfold[OF steering_control_angle[OF assms(2) a g] ok(3)] by blast
  from limiter_bounded[OF a assms(3)] a u show ?thesis by simp
qed

theorem angle_command_within_static_max_witness:
  "config_ok sample_config \<and> CANFD_ANGLE_STEERING \<in> flags sample_config
   \<and> 0 \<le> STEER_ANGLE_MAX (params sample_config)
   \<and> (\<exists>s' out m a.
           apply_hyundai_steer_angle_limits sample_config init_state sample_in (act_steeringAngleDeg sample_in) = Inr a
         \<and> update sample_config init_state sample_in = Inr (s', out, m)
         \<and> out_steeringAngleDeg out = a \<and> apply_angle_last s' = a
         \<and> - STEER_ANGLE_MAX (params sample_config) \<le> a \<and> a \<le> STEER_ANGLE_MAX (params sample_config))"
proof -
  have h1: "config_ok sample_config"
    by (simp add: config_ok_def tables_ok_def sample_config_def sample_params_def)
  have h2: "CANFD_ANGLE_STEERING \<in> flags sample_config"
    by (simp add: sample_config_def)
  have h3: "0 \<le> STEER_ANGLE_MAX (params sample_config)"
    by (simp add: sample_config_def sample_params_def)
  show ?thesis
    using h1 h2 h3 angle_command_within_static_max[OF h1 h2 h3, of init_state sample_in] by simp
qed

subsection \<open>A tick in angle mode\<close>

lemma update_angle_mode:
  assumes "config_ok c" and "CANFD_ANGLE_STEERING \<in> flags c"
  shows "\<exists>s' out m a g.
           apply_hyundai_steer_angle_limits c s i (act_steeringAngleDeg i) = Inr a
         \<and> calculate_angle_torque_reduction_gain c s i \<bar>act_torque i\<bar> = Inr g
         \<and> update c s i = Inr (s', out, m)
         \<and> frame s' = frame s + 1
         \<and> out_steeringAngleDeg out = a \<and> apply_angle_last s' = a
         \<and> out_torqueOutputCan out =
             (if latActive i then np_clip g (min_torque_reduction_gain c) (max_torque_reduction_gain c) else 0)
         \<and> apply_torque_last s' = out_torqueOutputCan out
         \<and> out_torque out = out_torqueOutputCan out / STEER_MAX (params c)"
proof -
  from assms(1) have ok: "tables_ok (params c)" "angle_torque_override_cycles c \<noteq> 0" "STEER_MAX (params c) \<noteq> 0"
    by (simp_all add: config_ok_def)
  obtain a where a: "apply_hyundai_steer_angle_limits c s i (act_steeringAngleDeg i) = Inr a"
    using limiter_returns[OF ok(1)] by blast
  obtain g where g: "calculate_angle_torque_reduction_gain c s i \<bar>act_torque i\<bar> = Inr g"
    using gain_returns[OF ok(2)] by blast
  show ?thesis
    using update_unfold[OF steering_control_angle[OF assms(2) a g] ok(3)] a g by auto
qed

lemma limiter_inactive:
  assumes "apply_hyundai_steer_angle_limits c s i x = Inr a" and "\<not> latActive i"
  shows "a = np_clip (steeringAngleDeg i) (- STEER_ANGLE_MAX (params c)) (STEER_ANGLE_MAX (params c))"
  using assms by (auto simp: apply_hyundai_steer_angle_limits_def Let_def split: sum.splits)

lemma update_inactive_angle:
  assumes "config_ok c" and "CANFD_ANGLE_STEERING \<in> flags c" and "\<not> latActive i"
  shows "\<exists>s' out m. update c s i = Inr (s', out, m)
           \<and> out_steeringAngleDeg out =
               np_clip (steeringAngleDeg i) (- STEER_ANGLE_MAX (params c)) (STEER_ANGLE_MAX (params c))
           \<and> apply_angle_last s' = out_steeringAngleDeg out
           \<and> out_torqueOutputCan out = 0 \<and> out_torque out = 0"
proof -
  obtain s' out m a g where u:
     "apply_hyundai_steer_angle_limits c s i (act_steeringAngleDeg i) = Inr a"
     "update c s i = Inr (s', out, m)" "out_steeringAngleDeg out = a" "apply_angle_last s' = a"
     "out_torqueOutputCan out =
             (if latActive i then np_clip g (min_torque_reduction_gain c) (max_torque_reduction_gain c) else 0)"
     "out_torque out = out_torqueOutputCan out / STEER_MAX (params c)"
    using update_angle_mode[OF assms(1,2), of s i] by blast
  from limiter_inactive[OF u(1) assms(3)] u assms(3) show ?thesis by simp
qed

lemma np_clip_id: "lo \<le> x \<Longrightarrow> x \<le> hi \<Longrightarrow> np_clip x lo hi = x"
  by (simp add: np_clip_def)

subsection \<open>An inactive tick commands the true angle, clamped\<close>

text \<open>
  Claim C7, as amended. In angle mode, on a tick without lateral control the commanded
  (echoed) angle, which is also kept as the last commanded angle, is the vehicle's current
  steering angle of that tick clamped to the static maximum steering angle; it is the
  current angle itself whenever that lies within the static maximum. The same holds on the
  second of two consecutive inactive ticks: nothing of the earlier targets remains.
\<close>

theorem inactive_angle_is_clamped_true_angle:
  assumes "config_ok c" and "CANFD_ANGLE_STEERING \<in> flags c" and "\<not> latActive i"
  shows "(\<exists>s' out m. update c s i = Inr (s', out, m)
           \<and> out_steeringAngleDeg out =
               np_clip (steeringAngleDeg i) (- STEER_ANGLE_MAX (params c)) (STEER_ANGLE_MAX (params c))
           \<and> apply_angle_last s' = out_steeringAngleDeg out
           \<and> (\<bar>steeringAngleDeg i\<bar> \<le> STEER_ANGLE_MAX (params c)
                \<longrightarrow> out_steeringAngleDeg out = steeringAngleDeg i))
      \<and> (\<not> latActive i0 \<longrightarrow>
          (\<exists>s2 o1 o2. run c s [i0, i] = Inr (s2, [o1, o2])
             \<and> out_steeringAngleDeg (fst o2) =
                 np_clip (steeringAngleDeg i) (- STEER_ANGLE_MAX (params c)) (STEER_ANGLE_MAX (params c))
             \<and> (\<bar>steeringAngleDeg i\<bar> \<le> STEER_ANGLE_MAX (params c)
                \<longrightarrow> out_steeringAngleDeg (fst o2) = steeringAngleDeg i)))"
proof -
  have id: "\<bar>steeringAngleDeg i\<bar> \<le> STEER_ANGLE_MAX (params c) \<Longrightarrow>
      np_clip (steeringAngleDeg i) (- STEER_ANGLE_MAX (params c)) (STEER_ANGLE_MAX (params c)) = steeringAngleDeg i"
    by (rule np_clip_id) auto
  have one: "\<exists>s' out m. update c s i = Inr (s', out, m)
           \<and> out_steeringAngleDeg out =
               np_clip (steeringAngleDeg i) (- STEER_ANGLE_MAX (params c)) (STEER_ANGLE_MAX (params c))
           \<and> apply_angle_last s' = out_steeringAngleDeg out
           \<and> (\<bar>steeringAngleDeg i\<bar> \<le> STEER_ANGLE_MAX (params c)
                \<longrightarrow> out_steeringAngleDeg out = steeringAngleDeg i)" for s
    using update_inactive_angle[OF assms, of s] id by auto
  have two: "\<exists>s2 o1 o2. run c s [i0, i] = Inr (s2, [o1, o2])
             \<and> out_steeringAngleDeg (fst o2) =
                 np_clip (steeringAngleDeg i) (- STEER_ANGLE_MAX (params c)) (STEER_ANGLE_MAX (params c))
             \<and> (\<bar>steeringAngleDeg i\<bar> \<le> STEER_ANGLE_MAX (params c)
                \<longrightarrow> out_steeringAngleDeg (fst o2) = steeringAngleDeg i)"
  proof -
    obtain s1 out1 m1 where u1: "update c s i0 = Inr (s1, out1, m1)"
      using update_returns[OF assms(1)] by blast
    obtain s2 out2 m2 where u2: "update c s1 i = Inr (s2, out2, m2)"
      "out_steeringAngleDeg out2 =
               np_clip (steeringAngleDeg i) (- STEER_ANGLE_MAX (params c)) (STEER_ANGLE_MAX (params c))"
      using one[of s1] by blast
    have "run c s [i0, i] = Inr (s2, [(out1, m1), (out2, m2)])"
      using u1 u2 by simp
    with u2(2) id show ?thesis by auto
  qed
  from one two show ?thesis by blast
qed

text \<open>
  The claim as stated fails beyond the static maximum: with the wheel at 200 degrees and a
  static maximum of 180 degrees the inactive tick commands 180 degrees.
\<close>

theorem inactive_angle_counterexample:
  "\<not> latActive inactive_in
   \<and> map_option out_steeringAngleDeg (echoed sample_config init_state inactive_in) = Some 180
   \<and> steeringAngleDeg inactive_in = 200"
proof -
  have h1: "config_ok sample_config"
    by (simp add: config_ok_def tables_ok_def sample_config_def sample_params_def)
  have h2: "CANFD_ANGLE_STEERING \<in> flags sample_config"
    by (simp add: sample_config_def)
  have h3: "\<not> latActive inactive_in"
    by (simp add: inactive_in_def)
  have c: "np_clip (steeringAngleDeg inactive_in) (- STEER_ANGLE_MAX (params sample_config))
       (STEER_ANGLE_MAX (params sample_config)) = 180"
    by (simp add: inactive_in_def sample_config_def sample_params_def np_clip_def)
  from update_inactive_angle[OF h1 h2 h3, of init_state] c
  have "map_option out_steeringAngleDeg (echoed sample_config init_state inactive_in) = Some 180"
    by (auto simp: echoed_def)
  then show ?thesis using h3 by (simp add: inactive_in_def)
qed

theorem inactive_angle_is_clamped_true_angle_witness:
  "config_ok sample_config \<and> CANFD_ANGLE_STEERING \<in> flags sample_config
   \<and> \<not> latActive (sample_in\<lparr>latActive := False, steeringAngleDeg := 100\<rparr>)
   \<and> \<bar>steeringAngleDeg (sample_in\<lparr>latActive := False, steeringAngleDeg := 100\<rparr>)\<bar>
        \<le> STEER_ANGLE_MAX (params sample_config)
   \<and> (\<exists>s' out m. update sample_config init_state (sample_in\<lparr>latActive := False, steeringAngleDeg := 100\<rparr>)
                     = Inr (s', out, m)
           \<and> out_steeringAngleDeg out = 100 \<and> apply_angle_last s' = 100)
   \<and> (\<exists>s2 o1 o2. run sample_config init_state
                     [inactive_in, sample_in\<lparr>latActive := False, steeringAngleDeg := 100\<rparr>]
                     = Inr (s2, [o1, o2])
             \<and> out_steeringAngleDeg (fst o2) = 100)"
proof -
  have h1: "config_ok sample_config"
    by (simp add: config_ok_def tables_ok_def sample_config_def sample_params_def)
  have h2: "CANFD_ANGLE_STEERING \<in> flags sample_config"
    by (simp add: sample_config_def)
  have h3: "\<not> latActive (sample_in\<lparr>latActive := False, steeringAngleDeg := 100\<rparr>)"
    by simp
  have h4: "\<bar>steeringAngleDeg (sample_in\<lparr>latActive := False, steeringAngleDeg := 100\<rparr>)\<bar>
        \<le> STEER_ANGLE_MAX (params sample_config)"
    by (simp add: sample_config_def sample_params_def)
  have h5: "\<not> latActive inactive_in"
    by (simp add: inactive_in_def)
  show ?thesis
    using h1 h2 h3 h4 h5
      inactive_angle_is_clamped_true_angle[OF h1 h2 h3, of init_state inactive_in]
    by auto
qed

subsection \<open>The gain stays in its band while lateral control is active\<close>

text \<open>
  Claim C5, as amended. In angle mode, with the minimum gain not above the maximum gain, a
  tick returns; the final gain, echoed as \<^verbatim>\<open>torqueOutputCan\<close> and kept as the last
  torque (the echoed \<^verbatim>\<open>torque\<close> field is this value divided by \<^verbatim>\<open>STEER_MAX\<close>), lies
  between the minimum and the maximum gain whenever lateral control is active, whatever
  the driver-override state; on a tick without lateral control it is zero.
\<close>

theorem gain_in_band_when_active:
  assumes "config_ok c" and "CANFD_ANGLE_STEERING \<in> flags c"
    and "min_torque_reduction_gain c \<le> max_torque_reduction_gain c"
  shows "\<exists>s' out m. update c s i = Inr (s', out, m)
           \<and> out_torque out = out_torqueOutputCan out / STEER_MAX (params c)
           \<and> apply_torque_last s' = out_torqueOutputCan out
           \<and> (latActive i \<longrightarrow> min_torque_reduction_gain c \<le> out_torqueOutputCan out
                              \<and> out_torqueOutputCan out \<le> max_torque_reduction_gain c)
           \<and> (\<not> latActive i \<longrightarrow> out_torqueOutputCan out = 0)"
proof -
  obtain s' out m g where u:
     "update c s i = Inr (s', out, m)"
     "out_torqueOutputCan out =
             (if latActive i then np_clip g (min_torque_reduction_gain c) (max_torque_reduction_gain c) else 0)"
     "apply_torque_last s' = out_torqueOutputCan out"
     "out_torque out = out_torqueOutputCan out / STEER_MAX (params c)"
    using update_angle_mode[OF assms(1,2), of s i] by blast
  from np_clip_bounds[OF assms(3)] u show ?thesis by auto
qed

theorem gain_in_band_when_active_witness:
  "config_ok sample_config \<and> CANFD_ANGLE_STEERING \<in> flags sample_config
   \<and> min_torque_reduction_gain sample_config \<le> max_torque_reduction_gain sample_config
   \<and> latActive sample_in \<and> \<not> latActive inactive_in
   \<and> (\<exists>s' out m. update sample_config init_state sample_in = Inr (s', out, m)
           \<and> min_torque_reduction_gain sample_config \<le> out_torqueOutputCan out
           \<and> out_torqueOutputCan out \<le> max_torque_reduction_gain sample_config)
   \<and> (\<exists>s' out m. update sample_config init_state inactive_in = Inr (s', out, m)
           \<and> out_torqueOutputCan out = 0)"
proof -
  have h1: "config_ok sample_config"
    by (simp add: config_ok_def tables_ok_def sample_config_def sample_params_def)
  have h2: "CANFD_ANGLE_STEERING \<in> flags sample_config"
    by (simp add: sample_config_def)
  have h3: "min_torque_reduction_gain sample_config \<le> max_torque_reduction_gain sample_config"
    by (simp add: sample_config_def)
  have h4: "latActive sample_in" by (simp add: sample_in_def)
  have h5: "\<not> latActive inactive_in" by (simp add: inactive_in_def)
  show ?thesis
    using h1 h2 h3 h4 h5
      gain_in_band_when_active[OF h1 h2 h3, of init_state sample_in]
      gain_in_band_when_active[OF h1 h2 h3, of init_state inactive_in]
    by auto
qed

text \<open>
  The claim as stated fails on an inactive tick: the output is forced to zero, below the
  minimum gain 0.1.
\<close>

theorem gain_in_band_counterexample:
  "map_option out_torque (echoed sample_config init_state inactive_in) = Some 0
   \<and> map_option out_torqueOutputCan (echoed sample_config init_state inactive_in) = Some 0
   \<and> \<not> (min_torque_reduction_gain sample_config \<le> 0)"
proof -
  have h1: "config_ok sample_config"
    by (simp add: config_ok_def tables_ok_def sample_config_def sample_params_def)
  have h2: "CANFD_ANGLE_STEERING \<in> flags sample_config"
    by (simp add: sample_config_def)
  have h3: "\<not> latActive inactive_in"
    by (simp add: inactive_in_def)
  from update_inactive_angle[OF h1 h2 h3, of init_state]
  have "map_option out_torque (echoed sample_config init_state inactive_in) = Some 0
      \<and> map_option out_torqueOutputCan (echoed sample_config init_state inactive_in) = Some 0"
    by (auto simp: echoed_def)
  then show ?thesis by (simp add: sample_config_def)
qed

subsection \<open>The messages and the state of a tick\<close>

lemma update_msgs:
  assumes "steering_control c s i = Inr (s1, t, r)" and "STEER_MAX (params c) \<noteq> 0"
    and "ap = (if latActive i then t else 0)"
    and "s2 = s1\<lparr>apply_torque_last := ap\<rparr>"
    and "accel = np_clip (act_accel i) (ACCEL_MIN (params c)) (ACCEL_MAX (params c))"
    and "X = (if CANFD \<in> flags c then create_canfd_msgs c s2 i r ap accel
              else create_can_msgs c s2 i r ap (latActive i \<and> \<not> r) accel)"
  shows "update c s i =
           Inr ((snd X)\<lparr>frame := frame (snd X) + 1\<rparr>,
                \<lparr> out_torque = ap / STEER_MAX (params c), out_torqueOutputCan = ap,
                  out_steeringAngleDeg = apply_angle_last (snd X), out_accel = actual_accel i \<rparr>,
                tester_present_msgs c s2 i @ fst X)"
  using assms by (simp add: update_def Let_def split_def)

lemma tester_present_no_button [simp]:
  "filter is_button_msg (tester_present_msgs c s i) = []"
  by (simp add: tester_present_msgs_def Let_def split_def)

lemma canfd_alt_resume:
  assumes "CANFD_ALT_BUTTONS \<in> flags c" and "\<not> openpilotLongitudinalControl c"
    and "\<not> cruise_cancel i" and "cruise_resume i"
  shows "filter is_button_msg (fst (create_canfd_msgs c s i r t a)) = []
       \<and> last_button_frame (snd (create_canfd_msgs c s i r t a)) = last_button_frame s"
  using assms by (simp add: create_canfd_msgs_def Let_def)

subsection \<open>Resume on the extended bus with alternative buttons\<close>

text \<open>
  Claim C9. On the extended (CAN FD) bus, with longitudinal control not self-managed, the
  alternative-button flag set, no cancel request and a resume request on a tick where more
  than 0.25 s have passed since the last button frame: the tick returns, its messages hold
  no button message, and the last-button-frame latch keeps its value.
\<close>

theorem canfd_alt_button_resume_sends_nothing:
  assumes "config_ok c" and "CANFD \<in> flags c" and "\<not> openpilotLongitudinalControl c"
    and "CANFD_ALT_BUTTONS \<in> flags c" and "\<not> cruise_cancel i" and "cruise_resume i"
    and "of_int (frame s - last_button_frame s) * DT_CTRL > 0.25"
  shows "\<exists>s' out m. update c s i = Inr (s', out, m)
           \<and> filter is_button_msg m = []
           \<and> last_button_frame s' = last_button_frame s"
proof -
  from assms(1) have ok: "STEER_MAX (params c) \<noteq> 0" by (simp add: config_ok_def)
  obtain s' out m where u: "update c s i = Inr (s', out, m)"
    using update_returns[OF assms(1)] by blast
  obtain s1 t r where sc: "steering_control c s i = Inr (s1, t, r)"
    using update_Inr_steering[OF u] by blast
  have keep: "last_button_frame s1 = last_button_frame s"
    using steering_control_keeps[OF sc] by simp
  from update_msgs[OF sc ok refl refl refl refl] u assms(2)
    canfd_alt_resume[OF assms(4) assms(3) assms(5) assms(6)] keep
  show ?thesis by simp
qed

theorem canfd_alt_button_resume_sends_nothing_witness:
  "config_ok alt_button_config \<and> CANFD \<in> flags alt_button_config
   \<and> \<not> openpilotLongitudinalControl alt_button_config
   \<and> CANFD_ALT_BUTTONS \<in> flags alt_button_config
   \<and> \<not> cruise_cancel (sample_in\<lparr>cruise_resume := True\<rparr>)
   \<and> cruise_resume (sample_in\<lparr>cruise_resume := True\<rparr>)
   \<and> of_int (frame (init_state\<lparr>frame := 30\<rparr>) - last_button_frame (init_state\<lparr>frame := 30\<rparr>)) * DT_CTRL > 0.25
   \<and> (\<exists>s' out m. update alt_button_config (init_state\<lparr>frame := 30\<rparr>) (sample_in\<lparr>cruise_resume := True\<rparr>)
                     = Inr (s', out, m)
           \<and> filter is_button_msg m = [] \<and> last_button_frame s' = 0)"
proof -
  have h1: "config_ok alt_button_config"
    by (simp add: config_ok_def tables_ok_def alt_button_config_def sample_config_def sample_params_def)
  have h2: "CANFD \<in> flags alt_button_config" by (simp add: alt_button_config_def)
  have h3: "\<not> openpilotLongitudinalControl alt_button_config"
    by (simp add: alt_button_config_def sample_config_def)
  have h4: "CANFD_ALT_BUTTONS \<in> flags alt_button_config" by (simp add: alt_button_config_def)
  have h5: "\<not> cruise_cancel (sample_in\<lparr>cruise_resume := True\<rparr>)" by (simp add: sample_in_def)
  have h6: "cruise_resume (sample_in\<lparr>cruise_resume := True\<rparr>)" by simp
  have h7: "of_int (frame (init_state\<lparr>frame := 30\<rparr>) - last_button_frame (init_state\<lparr>frame := 30\<rparr>)) * DT_CTRL > 0.25"
    by (simp add: init_state_def DT_CTRL_def)
  have l: "last_button_frame (init_state\<lparr>frame := 30\<rparr>) = 0" by (simp add: init_state_def)
  show ?thesis
    using h1 h2 h3 h4 h5 h6 h7 l
      canfd_alt_button_resume_sends_nothing[OF h1 h2 h3 h4 h5 h6 h7]
    by simp
qed

subsection \<open>Torque mode never writes the last commanded angle\<close>

lemma update_torque_mode:
  assumes "CANFD_ANGLE_STEERING \<notin> flags c" and "STEER_MAX (params c) \<noteq> 0"
  shows "\<exists>s' out m. update c s i = Inr (s', out, m)
          \<and> apply_angle_last s' = apply_angle_last s
          \<and> out_steeringAngleDeg out = apply_angle_last s"
proof -
  obtain s1 t r where sc: "steering_control c s i = Inr (s1, t, r)" "apply_angle_last s1 = apply_angle_last s"
    using steering_control_torque[OF assms(1)] by blast
  from update_unfold[OF sc(1) assms(2)] sc(2) show ?thesis by auto
qed

lemma run_torque_mode:
  assumes "CANFD_ANGLE_STEERING \<notin> flags c" and "STEER_MAX (params c) \<noteq> 0"
  shows "\<exists>s' outs. run c s ins = Inr (s', outs) \<and> length outs = length ins
          \<and> apply_angle_last s' = apply_angle_last s
          \<and> (\<forall>x \<in> set outs. out_steeringAngleDeg (fst x) = apply_angle_last s)"
proof (induction ins arbitrary: s)
  case Nil
  show ?case by simp
next
  case (Cons i ins)
  obtain s1 out m where u: "update c s i = Inr (s1, out, m)" "apply_angle_last s1 = apply_angle_last s"
      "out_steeringAngleDeg out = apply_angle_last s"
    using update_torque_mode[OF assms] by blast
  obtain s' outs where r: "run c s1 ins = Inr (s', outs)" "length outs = length ins"
      "apply_angle_last s' = apply_angle_last s1"
      "\<forall>x \<in> set outs. out_steeringAngleDeg (fst x) = apply_angle_last s1"
    using Cons.IH[of s1] by blast
  have "run c s (i # ins) = Inr (s', (out, m) # outs)"
    using u(1) r(1) by simp
  with u r show ?case by simp
qed

text \<open>
  Claim C10. In torque-steering mode every run from the state of construction returns, no
  tick of it changes the persisted last commanded angle, and the steering angle echoed in
  the returned actuators is the initial value 0 on every tick, whatever the vehicle's
  steering angle is.
\<close>

theorem torque_mode_echoes_initial_angle:
  assumes "CANFD_ANGLE_STEERING \<notin> flags c" and "STEER_MAX (params c) \<noteq> 0"
  shows "\<exists>s' outs. run c init_state ins = Inr (s', outs) \<and> length outs = length ins
          \<and> apply_angle_last s' = 0
          \<and> (\<forall>x \<in> set outs. out_steeringAngleDeg (fst x) = 0)"
  using run_torque_mode[OF assms, of init_state ins] by (simp add: init_state_def)

theorem torque_mode_echoes_initial_angle_witness:
  "CANFD_ANGLE_STEERING \<notin> flags torque_config \<and> STEER_MAX (params torque_config) \<noteq> 0
   \<and> (\<exists>s' o1 o2. run torque_config init_state [sample_in, inactive_in] = Inr (s', [o1, o2])
          \<and> apply_angle_last s' = 0
          \<and> out_steeringAngleDeg (fst o1) = 0 \<and> out_steeringAngleDeg (fst o2) = 0
          \<and> steeringAngleDeg inactive_in = 200)"
proof -
  have h1: "CANFD_ANGLE_STEERING \<notin> flags torque_config" by (simp add: torque_config_def)
  have h2: "STEER_MAX (params torque_config) \<noteq> 0"
    by (simp add: torque_config_def sample_config_def sample_params_def)
  obtain s' outs where r: "run torque_config init_state [sample_in, inactive_in] = Inr (s', outs)"
     "length outs = length [sample_in, inactive_in]" "apply_angle_last s' = 0"
     "\<forall>x \<in> set outs. out_steeringAngleDeg (fst x) = 0"
    using torque_mode_echoes_initial_angle[OF h1 h2, of "[sample_in, inactive_in]"] by blast
  from r(2) obtain o1 o2 where "outs = [o1, o2]"
    by (cases outs; cases "tl outs"; cases "tl (tl outs)") auto
  with r h1 h2 show ?thesis by (auto simp: inactive_in_def)
qed

subsection \<open>Interpolation over the lookup table\<close>

lemma interp_scan_segment:
  assumes "sorted_wrt (<) xp" and "length xp = length fp" and "Suc j < length xp"
    and "xp ! j \<le> x" and "x < xp ! Suc j"
  shows "interp_scan x xp fp =
           fp ! j + (fp ! Suc j - fp ! j) / (xp ! Suc j - xp ! j) * (x - xp ! j)"
  using assms
proof (induction x xp fp arbitrary: j rule: interp_scan.induct)
  case (1 x x0 x1 xs y0 y1 ys)
  show ?case
  proof (cases j)
    case 0
    with "1.prems" show ?thesis by simp
  next
    case (Suc k)
    from "1.prems"(1) have st: "sorted_wrt (<) (x1 # xs)" by simp
    from "1.prems"(3) Suc have kl: "k < length (x1 # xs)" by simp
    have "x1 \<le> (x1 # xs) ! k"
    proof (cases k)
      case 0
      then show ?thesis by simp
    next
      case (Suc n)
      with sorted_wrt_nth_less[OF st, of 0 k] kl show ?thesis by simp
    qed
    with "1.prems"(4) Suc have nlt: "\<not> x < x1" by simp
    have "interp_scan x (x1 # xs) (y1 # ys) =
            (y1 # ys) ! k + ((y1 # ys) ! Suc k - (y1 # ys) ! k) / ((x1 # xs) ! Suc k - (x1 # xs) ! k)
              * (x - (x1 # xs) ! k)"
      using "1.prems" Suc nlt by (intro "1.IH") auto
    with nlt Suc show ?thesis by simp
  qed
qed simp_all

lemma np_interp_segment:
  assumes "sorted_wrt (<) xp" and "length xp = length fp" and "Suc j < length xp"
    and "xp ! j \<le> x" and "x < xp ! Suc j"
  shows "np_interp x xp fp =
           Inr (fp ! j + (fp ! Suc j - fp ! j) / (xp ! Suc j - xp ! j) * (x - xp ! j))"
proof -
  from assms(3) have ne: "xp \<noteq> []" by auto
  have "hd xp \<le> xp ! j"
  proof (cases j)
    case 0
    with ne show ?thesis by (simp add: hd_conv_nth)
  next
    case (Suc k)
    with sorted_wrt_nth_less[OF assms(1), of 0 j] assms(3) have "xp ! 0 < xp ! j" by simp
    with ne show ?thesis by (simp add: hd_conv_nth)
  qed
  with assms(4) have a: "\<not> x < hd xp" by simp
  have "xp ! Suc j \<le> last xp"
  proof (cases "Suc j = length xp - 1")
    case True
    with ne show ?thesis by (simp add: last_conv_nth)
  next
    case False
    with assms(3) have "Suc j < length xp - 1" by simp
    with sorted_wrt_nth_less[OF assms(1), of "Suc j" "length xp - 1"]
    have "xp ! Suc j < xp ! (length xp - 1)" by simp
    with ne show ?thesis by (simp add: last_conv_nth)
  qed
  with assms(5) have b: "\<not> last xp \<le> x" by simp
  from a b ne assms(2) interp_scan_segment[OF assms] show ?thesis
    by (simp add: np_interp_def)
qed

lemma np_interp_left: "xp \<noteq> [] \<Longrightarrow> length xp = length fp \<Longrightarrow> x < hd xp \<Longrightarrow> np_interp x xp fp = Inr (hd fp)"
  by (simp add: np_interp_def)

lemma np_interp_right:
  "sorted_wrt (<) xp \<Longrightarrow> xp \<noteq> [] \<Longrightarrow> length xp = length fp \<Longrightarrow> last xp \<le> x \<Longrightarrow> np_interp x xp fp = Inr (last fp)"
proof -
  assume s: "sorted_wrt (<) xp" and ne: "xp \<noteq> []" and l: "length xp = length fp" and r: "last xp \<le> x"
  have "hd xp \<le> last xp"
  proof (cases "length xp = 1")
    case True
    then show ?thesis using ne by (simp add: hd_conv_nth last_conv_nth)
  next
    case False
    with ne have "0 < length xp - 1" by (cases xp) auto
    with sorted_wrt_nth_less[OF s, of 0 "length xp - 1"]
    have "xp ! 0 < xp ! (length xp - 1)" by simp
    then show ?thesis using ne by (simp add: hd_conv_nth last_conv_nth)
  qed
  with r have "\<not> x < hd xp" by simp
  with ne l r show ?thesis by (simp add: np_interp_def)
qed

subsection \<open>Rounding to a double\<close>

text \<open>
  The exponent search finds the binade of its argument, so \<open>round_double\<close> can be evaluated
  from the binade; it is odd, and it keeps a value on its side of a power of two.
\<close>

lemma two_powi_less_imp: "(2::real) powi m < 2 powi n \<Longrightarrow> m < n"
  using power_int_increasing[of n m "2::real"] by (cases "m < n") auto

lemma exp_search_eq:
  "2 powi e' \<le> a \<Longrightarrow> a < 2 powi (e' + 1) \<Longrightarrow> e \<le> e' \<Longrightarrow> e' \<le> e + int n \<Longrightarrow> exp_search n e a = e'"
proof (induction n arbitrary: e)
  case 0
  then show ?case by simp
next
  case (Suc n)
  show ?case
  proof (cases "(2::real) powi (e + 1) \<le> a")
    case True
    with Suc.prems(2) have "(2::real) powi (e + 1) < 2 powi (e' + 1)" by simp
    then have "e + 1 < e' + 1" by (rule two_powi_less_imp)
    with Suc.prems True show ?thesis by (simp add: Suc.IH)
  next
    case False
    with Suc.prems(1) have "(2::real) powi e' < 2 powi (e + 1)" by simp
    then have "e' < e + 1" by (rule two_powi_less_imp)
    with Suc.prems False show ?thesis by simp
  qed
qed

lemma exp_search_low: "a < 2 powi (e + 1) \<Longrightarrow> exp_search n e a = e"
  by (cases n) simp_all

lemma double_exponent_eq:
  "2 powi e \<le> \<bar>x\<bar> \<Longrightarrow> \<bar>x\<bar> < 2 powi (e + 1) \<Longrightarrow> - 1022 \<le> e \<Longrightarrow> e \<le> 1023 \<Longrightarrow> double_exponent x = e"
  unfolding double_exponent_def by (rule exp_search_eq) simp_all

lemma round_double_eq:
  "2 powi e \<le> \<bar>x\<bar> \<Longrightarrow> \<bar>x\<bar> < 2 powi (e + 1) \<Longrightarrow> - 1022 \<le> e \<Longrightarrow> e \<le> 1023 \<Longrightarrow>
     round_double x = of_int (py_round (x / 2 powi (e - 52))) * 2 powi (e - 52)"
proof -
  assume "2 powi e \<le> \<bar>x\<bar>" "\<bar>x\<bar> < 2 powi (e + 1)" "- 1022 \<le> e" "e \<le> 1023"
  then have "double_exponent x = e" by (rule double_exponent_eq)
  then show ?thesis unfolding round_double_def Let_def by (simp only:)
qed

lemma round_double_0: "round_double 0 = 0"
  by (simp add: round_double_def py_round_def)

lemma round_double_tenth: "round_double 0.1 = 3602879701896397 / 36028797018963968"
  by (subst round_double_eq[of "- 4"]) (simp_all add: py_round_def power_int_minus)

lemma round_double_04: "round_double 0.4 = 3602879701896397 / 9007199254740992"
  by (subst round_double_eq[of "- 2"]) (simp_all add: py_round_def power_int_minus)

lemma round_double_03: "round_double 0.3 = 5404319552844595 / 18014398509481984"
  by (subst round_double_eq[of "- 2"]) (simp_all add: py_round_def power_int_minus)

lemma float_sub_04_03: "float_sub 0.4 0.3 = 1801439850948199 / 18014398509481984"
  unfolding float_sub_def round_double_04 round_double_03
  by (subst round_double_eq[of "- 4"]) (simp_all add: py_round_def power_int_minus)

lemma float_sub_01_0: "float_sub 0.1 0 = 3602879701896397 / 36028797018963968"
  unfolding float_sub_def round_double_tenth round_double_0
  by (subst round_double_eq[of "- 4"]) (simp_all add: py_round_def power_int_minus)


lemma exp_search_ge: "e \<le> exp_search n e a"
proof (induction n arbitrary: e)
  case 0
  show ?case by simp
next
  case (Suc n)
  from Suc[of "e + 1"] show ?case by simp
qed

lemma exp_search_lower: "2 powi e \<le> a \<Longrightarrow> 2 powi (exp_search n e a) \<le> a"
  by (induction n arbitrary: e) simp_all

lemma exp_search_upper: "a < 2 powi (e + int n + 1) \<Longrightarrow> a < 2 powi (exp_search n e a + 1)"
proof (induction n arbitrary: e)
  case 0
  then show ?case by simp
next
  case (Suc n)
  from Suc.prems have "a < 2 powi (e + 1 + int n + 1)" by (simp add: add.commute add.left_commute)
  from Suc.IH[OF this] show ?case by simp
qed

lemma exp_search_reach:
  "e \<le> e0 \<Longrightarrow> e0 \<le> e + int n \<Longrightarrow> 2 powi e0 \<le> a \<Longrightarrow> e0 \<le> exp_search n e a"
proof (induction n arbitrary: e)
  case 0
  then show ?case by simp
next
  case (Suc n)
  show ?case
  proof (cases "(2::real) powi (e + 1) \<le> a")
    case True
    show ?thesis
    proof (cases "e0 = e")
      case True
      with exp_search_ge[of "e + 1" n a] \<open>2 powi (e + 1) \<le> a\<close> show ?thesis by simp
    next
      case False
      with Suc.prems have "e + 1 \<le> e0" "e0 \<le> e + 1 + int n" by simp_all
      from Suc.IH[OF this Suc.prems(3)] True show ?thesis by simp
    qed
  next
    case False
    with Suc.prems(3) have "(2::real) powi e0 < 2 powi (e + 1)" by simp
    then have "e0 < e + 1" by (rule two_powi_less_imp)
    with Suc.prems False show ?thesis by simp
  qed
qed

lemma py_round_bounds: "x - 1 / 2 \<le> of_int (py_round x) \<and> of_int (py_round x) \<le> x + 1 / 2"
  unfolding py_round_def Let_def by (auto; linarith)

lemma py_round_ge: "of_int n \<le> x \<Longrightarrow> n \<le> py_round x"
proof -
  assume "of_int n \<le> x"
  with py_round_bounds[of x] have "real_of_int n - 1 < of_int (py_round x)" by linarith
  then have "real_of_int (n - 1) < of_int (py_round x)" by simp
  then have "n - 1 < py_round x" by (simp only: of_int_less_iff)
  then show ?thesis by simp
qed

lemma py_round_le: "x \<le> of_int n \<Longrightarrow> py_round x \<le> n"
proof -
  assume "x \<le> of_int n"
  with py_round_bounds[of x] have "of_int (py_round x) < real_of_int n + 1" by linarith
  then have "real_of_int (py_round x) < of_int (n + 1)" by simp
  then have "py_round x < n + 1" by (simp only: of_int_less_iff)
  then show ?thesis by simp
qed

lemma py_round_frac:
  assumes "0 \<le> d" and "d < 1"
  shows "py_round (of_int f + d) =
           (if d < 1 / 2 then f else if 1 / 2 < d then f + 1 else if even f then f else f + 1)"
proof -
  from assms have "\<lfloor>of_int f + d\<rfloor> = f" by (intro floor_unique) simp_all
  then show ?thesis by (simp add: py_round_def Let_def)
qed

lemma int_less_real: "(m < k) = (real_of_int m + 1 \<le> of_int k)"
proof -
  have a: "(m < k) = (m + 1 \<le> k)" by auto
  have b: "(m + 1 \<le> k) = (real_of_int (m + 1) \<le> of_int k)" by (simp only: of_int_le_iff)
  have c: "real_of_int (m + 1) = real_of_int m + 1" by simp
  show ?thesis unfolding a b c ..
qed

lemma py_round_gt_even:
  assumes "even n"
  shows "(n < py_round x) = (of_int n + 1 / 2 < x)"
proof -
  define f where "f = \<lfloor>x\<rfloor>"
  define d where "d = x - of_int f"
  have d: "0 \<le> d" "d < 1" and x: "x = of_int f + d"
    unfolding d_def f_def by linarith+
  note pr = py_round_frac[OF d, of f, folded x]
  consider (a) "d < 1 / 2" | (b) "1 / 2 < d" | (c) "d = 1 / 2" by linarith
  then show ?thesis
  proof cases
    case a
    with pr have p: "py_round x = f" by simp
    show ?thesis
    proof (cases "n < f")
      case True
      then have "real_of_int n + 1 \<le> of_int f" by (simp only: int_less_real)
      with d x True p show ?thesis by simp
    next
      case False
      then have "f \<le> n" by simp
      then have "real_of_int f \<le> of_int n" by (simp only: of_int_le_iff)
      with a x False p show ?thesis by simp
    qed
  next
    case b
    with pr have p: "py_round x = f + 1" by simp
    show ?thesis
    proof (cases "n \<le> f")
      case True
      then have "real_of_int n \<le> of_int f" by (simp only: of_int_le_iff)
      with b x True p show ?thesis by simp
    next
      case False
      then have "f < n" by simp
      then have "real_of_int f + 1 \<le> of_int n" by (simp only: int_less_real)
      with d x False p show ?thesis by simp
    qed
  next
    case c
    with pr have p: "py_round x = (if even f then f else f + 1)" by simp
    have e: "(real_of_int n + 1 / 2 < x) = (n < f)" unfolding x c by simp
    show ?thesis
    proof (cases "even f")
      case True
      with p e show ?thesis by simp
    next
      case False
      with assms have "n \<noteq> f" by auto
      with p e False show ?thesis by auto
    qed
  qed
qed

lemma py_round_of_int: "py_round (of_int k) = k"
  by (simp add: py_round_def)

lemma py_round_minus: "py_round (- x) = - py_round x"
proof -
  define f where "f = \<lfloor>x\<rfloor>"
  define d where "d = x - of_int f"
  have d: "0 \<le> d" "d < 1" and x: "x = of_int f + d"
    unfolding d_def f_def by linarith+
  note pr = py_round_frac[OF d, of f, folded x]
  show ?thesis
  proof (cases "d = 0")
    case True
    with x have "x = of_int f" by simp
    then have "py_round x = f" "py_round (- x) = - f"
      using py_round_of_int[of f] py_round_of_int[of "- f"] by simp_all
    then show ?thesis by simp
  next
    case False
    with d have d': "0 \<le> 1 - d" "1 - d < 1" by simp_all
    have "- x = of_int (- f - 1) + (1 - d)" unfolding x by simp
    with py_round_frac[OF d', of "- f - 1"]
    have "py_round (- x) =
            (if 1 - d < 1 / 2 then - f - 1 else if 1 / 2 < 1 - d then - f - 1 + 1
             else if even (- f - 1) then - f - 1 else - f - 1 + 1)" by simp
    with pr show ?thesis by (auto split: if_splits)
  qed
qed

lemma double_exponent_minus: "double_exponent (- x) = double_exponent x"
  by (simp add: double_exponent_def)

lemma round_double_minus: "round_double (- x) = - round_double x"
  by (simp add: round_double_def double_exponent_minus py_round_minus Let_def)

lemma round_double_nonneg: "0 \<le> x \<Longrightarrow> 0 \<le> round_double x"
proof -
  assume x: "0 \<le> x"
  define q :: real where "q = 2 powi (double_exponent x - 52)"
  have q: "0 < q" unfolding q_def by simp
  with x have "real_of_int 0 \<le> x / q" by simp
  then have "0 \<le> py_round (x / q)" by (rule py_round_ge)
  then have "0 \<le> real_of_int (py_round (x / q))" by simp
  with q have "0 \<le> real_of_int (py_round (x / q)) * q" by simp
  then show ?thesis unfolding round_double_def Let_def q_def .
qed

lemma round_double_abs: "\<bar>round_double x\<bar> = round_double \<bar>x\<bar>"
proof (cases "0 \<le> x")
  case True
  with round_double_nonneg[of x] show ?thesis by simp
next
  case False
  with round_double_nonneg[of "- x"] show ?thesis by (simp add: round_double_minus)
qed


lemma exp_search_moved: "exp_search n e a \<noteq> e \<Longrightarrow> 2 powi (exp_search n e a) \<le> a"
proof (cases n)
  case 0
  assume "exp_search n e a \<noteq> e"
  with 0 show ?thesis by simp
next
  case (Suc m)
  assume ne: "exp_search n e a \<noteq> e"
  with Suc have t: "2 powi (e + 1) \<le> a" by (simp split: if_splits)
  with Suc have "exp_search n e a = exp_search m (e + 1) a" by simp
  with exp_search_lower[OF t, of m] show ?thesis by simp
qed

lemma binade_split: "(2::real) powi (e + 1) = 9007199254740992 * 2 powi (e - 52)"
  using power_int_add[of "2::real" 53 "e - 52"] by (simp add: add.commute)

lemma binade_split': "(2::real) powi e = 4503599627370496 * 2 powi (e - 52)"
  using power_int_add[of "2::real" 52 "e - 52"] by simp

lemma round_double_le_binade:
  assumes "0 \<le> x" and "x < 2 powi E" and "- 1021 \<le> E" and "E \<le> 1024"
  shows "round_double x \<le> 2 powi E"
proof -
  define e where "e = double_exponent x"
  define q :: real where "q = 2 powi (e - 52)"
  have q: "0 < q" unfolding q_def by simp
  have ax: "\<bar>x\<bar> = x" using assms(1) by simp
  have "(2::real) powi E \<le> 2 powi 1024" using assms(4) by (intro power_int_increasing) simp_all
  with assms(2) have "x < 2 powi (- 1022 + int 2045 + 1)" by simp
  then have up: "x < 2 powi (e + 1)"
    unfolding e_def double_exponent_def ax by (rule exp_search_upper)
  have "e + 1 \<le> E"
  proof (cases "e = - 1022")
    case True
    with assms(3) show ?thesis by simp
  next
    case False
    then have "2 powi e \<le> x"
      unfolding e_def double_exponent_def ax by (rule exp_search_moved)
    with assms(2) have "(2::real) powi e < 2 powi E" by simp
    then have "e < E" by (rule two_powi_less_imp)
    then show ?thesis by simp
  qed
  then have le: "(2::real) powi (e + 1) \<le> 2 powi E" by (intro power_int_increasing) simp_all
  from up have "x < 9007199254740992 * q" unfolding q_def by (simp only: binade_split[of e])
  with q have "x / q < 9007199254740992" by (simp add: pos_divide_less_eq)
  then have "x / q \<le> real_of_int 9007199254740992" by simp
  then have "py_round (x / q) \<le> 9007199254740992" by (rule py_round_le)
  then have "real_of_int (py_round (x / q)) \<le> real_of_int 9007199254740992" by (simp only: of_int_le_iff)
  with q have "real_of_int (py_round (x / q)) * q \<le> 9007199254740992 * q" by simp
  moreover have "round_double x = real_of_int (py_round (x / q)) * q"
    unfolding round_double_def Let_def q_def e_def ..
  moreover have "(2::real) powi (e + 1) = 9007199254740992 * q"
    unfolding q_def by (rule binade_split)
  ultimately have "round_double x \<le> 2 powi (e + 1)" by (simp only:)
  with le show ?thesis by simp
qed

lemma round_double_ge_binade:
  assumes "2 powi E \<le> x" and "- 1022 \<le> E" and "E \<le> 1023"
  shows "2 powi E \<le> round_double x"
proof -
  define e where "e = double_exponent x"
  define q :: real where "q = 2 powi (e - 52)"
  have q: "0 < q" unfolding q_def by simp
  have "(0::real) < 2 powi E" by simp
  with assms(1) have "0 < x" by linarith
  then have ax: "\<bar>x\<bar> = x" by simp
  from assms(2,3) have "- 1022 \<le> E" "E \<le> - 1022 + int 2045" by simp_all
  from exp_search_reach[OF this assms(1)] have Ee: "E \<le> e"
    unfolding e_def double_exponent_def ax .
  then have le: "(2::real) powi E \<le> 2 powi e" by (intro power_int_increasing) simp_all
  have "(2::real) powi (- 1022) \<le> 2 powi E" using assms(2) by (intro power_int_increasing) simp_all
  with assms(1) have "2 powi (- 1022) \<le> x" by simp
  then have "2 powi e \<le> x"
    unfolding e_def double_exponent_def ax by (rule exp_search_lower)
  then have "4503599627370496 * q \<le> x" unfolding q_def by (simp only: binade_split'[of e])
  with q have "4503599627370496 \<le> x / q" by (simp add: pos_le_divide_eq)
  then have "real_of_int 4503599627370496 \<le> x / q" by simp
  then have "4503599627370496 \<le> py_round (x / q)" by (rule py_round_ge)
  then have "real_of_int 4503599627370496 \<le> real_of_int (py_round (x / q))" by (simp only: of_int_le_iff)
  with q have "4503599627370496 * q \<le> real_of_int (py_round (x / q)) * q" by simp
  moreover have "round_double x = real_of_int (py_round (x / q)) * q"
    unfolding round_double_def Let_def q_def e_def ..
  moreover have "(2::real) powi e = 4503599627370496 * q"
    unfolding q_def by (rule binade_split')
  ultimately have "2 powi e \<le> round_double x" by (simp only:)
  with le show ?thesis by simp
qed

lemma round_double_gt_tenth_nonneg:
  assumes "0 \<le> x"
  shows "(round_double 0.1 < round_double x) = (14411518807585589 / 144115188075855872 < x)"
proof -
  consider (a) "x < 1 / 16" | (b) "1 / 16 \<le> x" "x < 1 / 8" | (c) "1 / 8 \<le> x" by linarith
  then show ?thesis
  proof cases
    case a
    then have "x < 2 powi (- 4)" by (simp add: power_int_minus)
    from round_double_le_binade[OF assms this] have "round_double x \<le> 1 / 16"
      by (simp add: power_int_minus)
    with a show ?thesis by (simp add: round_double_tenth)
  next
    case b
    then have "2 powi (- 4) \<le> \<bar>x\<bar>" "\<bar>x\<bar> < 2 powi (- 4 + 1)" by (simp_all add: power_int_minus)
    from round_double_eq[OF this]
    have r: "round_double x = real_of_int (py_round (x * 72057594037927936)) / 72057594037927936"
      by (simp add: power_int_minus)
    have "(round_double 0.1 < round_double x) =
            (real_of_int 7205759403792794 < real_of_int (py_round (x * 72057594037927936)))"
      unfolding round_double_tenth r by simp
    also have "\<dots> = (7205759403792794 < py_round (x * 72057594037927936))"
      by (simp only: of_int_less_iff)
    also have "\<dots> = (real_of_int 7205759403792794 + 1 / 2 < x * 72057594037927936)"
      by (rule py_round_gt_even) simp
    also have "\<dots> = (14411518807585589 / 144115188075855872 < x)" by auto
    finally show ?thesis .
  next
    case c
    then have "2 powi (- 3) \<le> x" by (simp add: power_int_minus)
    from round_double_ge_binade[OF this] have "1 / 8 \<le> round_double x"
      by (simp add: power_int_minus)
    with c show ?thesis by (simp add: round_double_tenth)
  qed
qed

lemma round_double_gt_tenth:
  "(round_double 0.1 < \<bar>round_double x\<bar>) = (14411518807585589 / 144115188075855872 < \<bar>x\<bar>)"
  unfolding round_double_abs by (rule round_double_gt_tenth_nonneg) simp

text \<open>
  The dead-zone test on a rounded difference: the double nearest to the difference exceeds
  the double nearest to 0.1 exactly when the difference exceeds the midpoint between that
  double and the next one, \<open>14411518807585589 / 2 ^ 57\<close>, which is about
  \<open>0.1 + 1.25e-17\<close>.
\<close>

lemma float_sub_gt_tenth:
  "(round_double 0.1 < \<bar>float_sub a b\<bar>) =
     (14411518807585589 / 144115188075855872 < \<bar>round_double a - round_double b\<bar>)"
  unfolding float_sub_def by (rule round_double_gt_tenth)

subsection \<open>The smoothing step of the limiter\<close>

text \<open>
  Claim C8. With the smoothing enabled, the magnitude of the speed below the threshold and
  a usable, increasing lookup table: when the candidate angle (the desired angle clamped to
  the encodable range) differs from the last commanded angle by more than 0.1 degree, the
  smoothed angle is \<open>alpha\<close> times the candidate plus \<open>1 - alpha\<close> times the last angle,
  where \<open>alpha\<close> is the interpolation of the speed over the table, at most 1; otherwise
  the candidate is returned unchanged. The difference and the 0.1 are those of the code:
  the float difference of the two angles, compared with the double nearest to 0.1; the
  test holds exactly when the two doubles differ by more than
  \<open>14411518807585589 / 2 ^ 57\<close>. The interpolation is piecewise linear: the first
  table value left of the table, the last one right of it, and between two neighbouring
  breakpoints the line through them.
\<close>

theorem smoothing_blends_beyond_dead_zone:
  assumes "angle_enable_smoothing_factor c"
    and "\<bar>vEgoRaw i\<bar> < SMOOTHING_ANGLE_MAX_VEGO (params c)"
    and "tables_ok (params c)"
    and "sorted_wrt (<) (SMOOTHING_ANGLE_VEGO_MATRIX (params c))"
  shows "\<exists>alpha.
      np_interp (vEgoRaw i) (SMOOTHING_ANGLE_VEGO_MATRIX (params c)) (SMOOTHING_ANGLE_ALPHA_MATRIX (params c))
        = Inr alpha
    \<and> smoothed_apply_angle c s i raw =
        Inr (if \<bar>float_sub (np_clip raw (- 819.2) 819.1) (apply_angle_last s)\<bar> > round_double 0.1
             then min alpha 1 * np_clip raw (- 819.2) 819.1 + (1 - min alpha 1) * apply_angle_last s
             else np_clip raw (- 819.2) 819.1)
    \<and> (\<bar>float_sub (np_clip raw (- 819.2) 819.1) (apply_angle_last s)\<bar> > round_double 0.1)
        = (\<bar>round_double (np_clip raw (- 819.2) 819.1) - round_double (apply_angle_last s)\<bar>
             > 14411518807585589 / 144115188075855872)
    \<and> (vEgoRaw i < hd (SMOOTHING_ANGLE_VEGO_MATRIX (params c))
         \<longrightarrow> alpha = hd (SMOOTHING_ANGLE_ALPHA_MATRIX (params c)))
    \<and> (last (SMOOTHING_ANGLE_VEGO_MATRIX (params c)) \<le> vEgoRaw i
         \<longrightarrow> alpha = last (SMOOTHING_ANGLE_ALPHA_MATRIX (params c)))
    \<and> (\<forall>j. Suc j < length (SMOOTHING_ANGLE_VEGO_MATRIX (params c))
           \<and> SMOOTHING_ANGLE_VEGO_MATRIX (params c) ! j \<le> vEgoRaw i
           \<and> vEgoRaw i < SMOOTHING_ANGLE_VEGO_MATRIX (params c) ! Suc j
         \<longrightarrow> alpha = SMOOTHING_ANGLE_ALPHA_MATRIX (params c) ! j
               + (SMOOTHING_ANGLE_ALPHA_MATRIX (params c) ! Suc j - SMOOTHING_ANGLE_ALPHA_MATRIX (params c) ! j)
                 / (SMOOTHING_ANGLE_VEGO_MATRIX (params c) ! Suc j - SMOOTHING_ANGLE_VEGO_MATRIX (params c) ! j)
                 * (vEgoRaw i - SMOOTHING_ANGLE_VEGO_MATRIX (params c) ! j))"
proof -
  let ?xp = "SMOOTHING_ANGLE_VEGO_MATRIX (params c)"
  let ?fp = "SMOOTHING_ANGLE_ALPHA_MATRIX (params c)"
  let ?cand = "np_clip raw (- 819.2) 819.1"
  from assms(3) have ne: "?xp \<noteq> []" and len: "length ?xp = length ?fp"
    by (simp_all add: tables_ok_def)
  obtain alpha where al: "np_interp (vEgoRaw i) ?xp ?fp = Inr alpha"
    using np_interp_returns[OF ne len] by blast
  have sm: "smoothed_apply_angle c s i raw =
        Inr (if \<bar>float_sub ?cand (apply_angle_last s)\<bar> > round_double 0.1
             then min alpha 1 * ?cand + (1 - min alpha 1) * apply_angle_last s
             else ?cand)"
    using assms(1,2) al
    by (simp add: smoothed_apply_angle_def sp_smooth_angle_def Let_def mult.commute)
  have thr: "(\<bar>float_sub ?cand (apply_angle_last s)\<bar> > round_double 0.1)
        = (\<bar>round_double ?cand - round_double (apply_angle_last s)\<bar>
             > 14411518807585589 / 144115188075855872)"
    by (rule float_sub_gt_tenth)
  have left: "vEgoRaw i < hd ?xp \<longrightarrow> alpha = hd ?fp"
    using np_interp_left[OF ne len] al by auto
  have right: "last ?xp \<le> vEgoRaw i \<longrightarrow> alpha = last ?fp"
    using np_interp_right[OF assms(4) ne len] al by auto
  have seg: "\<forall>j. Suc j < length ?xp \<and> ?xp ! j \<le> vEgoRaw i \<and> vEgoRaw i < ?xp ! Suc j
         \<longrightarrow> alpha = ?fp ! j + (?fp ! Suc j - ?fp ! j) / (?xp ! Suc j - ?xp ! j) * (vEgoRaw i - ?xp ! j)"
    using np_interp_segment[OF assms(4) len] al by auto
  from al sm thr left right seg show ?thesis by blast
qed

theorem smoothing_blends_beyond_dead_zone_witness:
  "angle_enable_smoothing_factor sample_config
   \<and> \<bar>vEgoRaw (sample_in\<lparr>vEgoRaw := 10\<rparr>)\<bar> < SMOOTHING_ANGLE_MAX_VEGO (params sample_config)
   \<and> tables_ok (params sample_config)
   \<and> sorted_wrt (<) (SMOOTHING_ANGLE_VEGO_MATRIX (params sample_config))
   \<and> Suc 1 < length (SMOOTHING_ANGLE_VEGO_MATRIX (params sample_config))
   \<and> SMOOTHING_ANGLE_VEGO_MATRIX (params sample_config) ! 1 \<le> vEgoRaw (sample_in\<lparr>vEgoRaw := 10\<rparr>)
   \<and> vEgoRaw (sample_in\<lparr>vEgoRaw := 10\<rparr>) < SMOOTHING_ANGLE_VEGO_MATRIX (params sample_config) ! Suc 1
   \<and> np_interp 10 (SMOOTHING_ANGLE_VEGO_MATRIX (params sample_config))
        (SMOOTHING_ANGLE_ALPHA_MATRIX (params sample_config)) = Inr 0.22
   \<and> round_double 0.1 = 3602879701896397 / 36028797018963968
   \<and> float_sub (np_clip 0.4 (- 819.2) 819.1) (apply_angle_last (init_state\<lparr>apply_angle_last := 0.3\<rparr>))
        = 1801439850948199 / 18014398509481984
   \<and> smoothed_apply_angle sample_config (init_state\<lparr>apply_angle_last := 0.3\<rparr>)
        (sample_in\<lparr>vEgoRaw := 10\<rparr>) 0.4 = Inr 0.322
   \<and> float_sub (np_clip 0.1 (- 819.2) 819.1) (apply_angle_last init_state)
        = 3602879701896397 / 36028797018963968
   \<and> smoothed_apply_angle sample_config init_state (sample_in\<lparr>vEgoRaw := 10\<rparr>) 0.1 = Inr 0.1"
proof -
  let ?i = "sample_in\<lparr>vEgoRaw := 10\<rparr>"
  let ?s = "init_state\<lparr>apply_angle_last := 0.3\<rparr>"
  let ?xp = "SMOOTHING_ANGLE_VEGO_MATRIX (params sample_config)"
  let ?fp = "SMOOTHING_ANGLE_ALPHA_MATRIX (params sample_config)"
  have h1: "angle_enable_smoothing_factor sample_config" by (simp add: sample_config_def)
  have h2: "\<bar>vEgoRaw ?i\<bar> < SMOOTHING_ANGLE_MAX_VEGO (params sample_config)"
    by (simp add: sample_config_def sample_params_def)
  have h3: "tables_ok (params sample_config)"
    by (simp add: tables_ok_def sample_config_def sample_params_def)
  have h4: "sorted_wrt (<) ?xp"
    by (simp add: sample_config_def sample_params_def)
  have h5: "Suc 1 < length ?xp \<and> ?xp ! 1 \<le> vEgoRaw ?i \<and> vEgoRaw ?i < ?xp ! Suc 1"
    by (simp add: sample_config_def sample_params_def)
  have c1: "np_clip 0.4 (- 819.2) 819.1 = 0.4" by (simp add: np_clip_def)
  have l1: "apply_angle_last ?s = 0.3" by simp
  have c2: "np_clip 0.1 (- 819.2) 819.1 = 0.1" by (simp add: np_clip_def)
  have l2: "apply_angle_last init_state = 0" by (simp add: init_state_def)
  have t1: "float_sub (np_clip 0.4 (- 819.2) 819.1) (apply_angle_last ?s)
              = 1801439850948199 / 18014398509481984"
    unfolding c1 l1 by (rule float_sub_04_03)
  have t2: "float_sub (np_clip 0.1 (- 819.2) 819.1) (apply_angle_last init_state)
              = 3602879701896397 / 36028797018963968"
    unfolding c2 l2 by (rule float_sub_01_0)
  obtain alpha where a:
    "np_interp (vEgoRaw ?i) ?xp ?fp = Inr alpha"
    "smoothed_apply_angle sample_config ?s ?i 0.4 =
        Inr (if \<bar>float_sub (np_clip 0.4 (- 819.2) 819.1) (apply_angle_last ?s)\<bar> > round_double 0.1
             then min alpha 1 * np_clip 0.4 (- 819.2) 819.1 + (1 - min alpha 1) * apply_angle_last ?s
             else np_clip 0.4 (- 819.2) 819.1)"
    "\<forall>j. Suc j < length ?xp \<and> ?xp ! j \<le> vEgoRaw ?i \<and> vEgoRaw ?i < ?xp ! Suc j
         \<longrightarrow> alpha = ?fp ! j + (?fp ! Suc j - ?fp ! j) / (?xp ! Suc j - ?xp ! j) * (vEgoRaw ?i - ?xp ! j)"
    using smoothing_blends_beyond_dead_zone[OF h1 h2 h3 h4, of "?s" "0.4"] by blast
  obtain beta where b:
    "smoothed_apply_angle sample_config init_state ?i 0.1 =
        Inr (if \<bar>float_sub (np_clip 0.1 (- 819.2) 819.1) (apply_angle_last init_state)\<bar> > round_double 0.1
             then min beta 1 * np_clip 0.1 (- 819.2) 819.1 + (1 - min beta 1) * apply_angle_last init_state
             else np_clip 0.1 (- 819.2) 819.1)"
    using smoothing_blends_beyond_dead_zone[OF h1 h2 h3 h4, of init_state "0.1"] by blast
  from a(3)[rule_format, of 1] h5 have al: "alpha = 0.22"
    by (simp add: sample_config_def sample_params_def)
  from a(1) al have i: "np_interp 10 ?xp ?fp = Inr 0.22" by simp
  from a(2)[unfolded c1 l1 float_sub_04_03 round_double_tenth] al
  have r1: "smoothed_apply_angle sample_config ?s ?i 0.4 = Inr 0.322"
    by simp
  from b[unfolded c2 l2 float_sub_01_0 round_double_tenth]
  have r2: "smoothed_apply_angle sample_config init_state ?i 0.1 = Inr 0.1"
    by simp
  from h1 h2 h3 h4 h5 i round_double_tenth t1 r1 t2 r2 show ?thesis by blast
qed

subsection \<open>The rate limit\<close>

lemma clip_chain:
  assumes "0 \<le> d" and "0 \<le> M" and "0 \<le> S"
    and "r = np_clip (np_clip (rate_limit x l (- d) d) (- M) M) (- S) S"
  shows "\<bar>r\<bar> \<le> M \<and> \<bar>r\<bar> \<le> S \<and> (\<bar>l\<bar> \<le> M \<longrightarrow> \<bar>l\<bar> \<le> S \<longrightarrow> \<bar>r - l\<bar> \<le> d)"
  using assms unfolding np_clip_def rate_limit_def
  by (auto simp: min_def max_def abs_if split: if_splits)

lemma limiter_active_step:
  assumes "apply_hyundai_steer_angle_limits c s i x = Inr r" and "latActive i"
    and "get_max_angle_delta (max (vEgoRaw i) 1) c 100 = Inr k"
    and "get_max_angle (max (vEgoRaw i) 1) c = Inr M"
    and "0 \<le> k" and "0 \<le> M" and "0 \<le> STEER_ANGLE_MAX (params c)"
  shows "\<bar>r\<bar> \<le> M \<and> \<bar>r\<bar> \<le> STEER_ANGLE_MAX (params c)
       \<and> (\<bar>apply_angle_last s\<bar> \<le> M \<longrightarrow> \<bar>apply_angle_last s\<bar> \<le> STEER_ANGLE_MAX (params c)
            \<longrightarrow> \<bar>r - apply_angle_last s\<bar> \<le> min k MAX_ANGLE_RATE)"
proof -
  from assms(1) obtain x' where sm: "smoothed_apply_angle c s i x = Inr x'"
    by (auto simp: apply_hyundai_steer_angle_limits_def split: sum.splits)
  have d: "0 \<le> min k MAX_ANGLE_RATE" using assms(5) by (simp add: MAX_ANGLE_RATE_def)
  from limiter_unfold[OF sm assms(3,4)] assms(1,2)
  have "r = np_clip (np_clip (rate_limit x' (apply_angle_last s) (- min k MAX_ANGLE_RATE) (min k MAX_ANGLE_RATE))
                 (- M) M) (- STEER_ANGLE_MAX (params c)) (STEER_ANGLE_MAX (params c))"
    by simp
  from clip_chain[OF d assms(6,7) this] show ?thesis .
qed

lemma update_active_step:
  assumes "config_ok c" and "CANFD_ANGLE_STEERING \<in> flags c" and "latActive i"
    and "get_max_angle_delta (max (vEgoRaw i) 1) c 100 = Inr k"
    and "get_max_angle (max (vEgoRaw i) 1) c = Inr M"
    and "0 \<le> k" and "0 \<le> M" and "0 \<le> STEER_ANGLE_MAX (params c)"
  shows "\<exists>s' out m. update c s i = Inr (s', out, m)
          \<and> apply_angle_last s' = out_steeringAngleDeg out
          \<and> \<bar>out_steeringAngleDeg out\<bar> \<le> M \<and> \<bar>out_steeringAngleDeg out\<bar> \<le> STEER_ANGLE_MAX (params c)
          \<and> (\<bar>apply_angle_last s\<bar> \<le> M \<longrightarrow> \<bar>apply_angle_last s\<bar> \<le> STEER_ANGLE_MAX (params c)
               \<longrightarrow> \<bar>out_steeringAngleDeg out - apply_angle_last s\<bar> \<le> min k MAX_ANGLE_RATE)"
proof -
  obtain s' out m a where u:
     "apply_hyundai_steer_angle_limits c s i (act_steeringAngleDeg i) = Inr a"
     "update c s i = Inr (s', out, m)" "out_steeringAngleDeg out = a" "apply_angle_last s' = a"
    using update_angle_mode[OF assms(1,2), of s i] by blast
  from limiter_active_step[OF u(1) assms(3-8)] u show ?thesis by simp
qed

lemma run_rate_in_range:
  assumes "config_ok c" and "CANFD_ANGLE_STEERING \<in> flags c"
    and "\<forall>i \<in> set ins. latActive i \<and> vEgoRaw i = v"
    and "get_max_angle_delta (max v 1) c 100 = Inr k"
    and "get_max_angle (max v 1) c = Inr M"
    and "0 \<le> k" and "0 \<le> M" and "0 \<le> STEER_ANGLE_MAX (params c)"
    and "\<bar>apply_angle_last s\<bar> \<le> M" and "\<bar>apply_angle_last s\<bar> \<le> STEER_ANGLE_MAX (params c)"
  shows "\<exists>s' outs. run c s ins = Inr (s', outs) \<and> length outs = length ins
          \<and> (\<forall>t < length ins.
                \<bar>out_steeringAngleDeg (fst (outs ! t)) - prev_angle s outs t\<bar> \<le> min k MAX_ANGLE_RATE)"
  using assms(3,9,10)
proof (induction ins arbitrary: s)
  case Nil
  show ?case by simp
next
  case (Cons i ins)
  from Cons.prems(1) have act: "latActive i" and sp: "vEgoRaw i = v" by simp_all
  obtain s1 out m where u: "update c s i = Inr (s1, out, m)"
      "apply_angle_last s1 = out_steeringAngleDeg out"
      "\<bar>out_steeringAngleDeg out\<bar> \<le> M" "\<bar>out_steeringAngleDeg out\<bar> \<le> STEER_ANGLE_MAX (params c)"
      "\<bar>out_steeringAngleDeg out - apply_angle_last s\<bar> \<le> min k MAX_ANGLE_RATE"
    using update_active_step[OF assms(1,2) act, of k M s] assms(4-8) sp Cons.prems(2,3) by auto
  from Cons.prems(1) have rest: "\<forall>i \<in> set ins. latActive i \<and> vEgoRaw i = v" by simp
  obtain s' outs where r: "run c s1 ins = Inr (s', outs)" "length outs = length ins"
      "\<forall>t < length ins.
          \<bar>out_steeringAngleDeg (fst (outs ! t)) - prev_angle s1 outs t\<bar> \<le> min k MAX_ANGLE_RATE"
    using Cons.IH[OF rest, of s1] u(2,3,4) by auto
  have run: "run c s (i # ins) = Inr (s', (out, m) # outs)"
    using u(1) r(1) by simp
  have "\<bar>out_steeringAngleDeg (fst (((out, m) # outs) ! t)) - prev_angle s ((out, m) # outs) t\<bar>
          \<le> min k MAX_ANGLE_RATE" if "t < length (i # ins)" for t
  proof (cases t)
    case 0
    with u(5) show ?thesis by (simp add: prev_angle_def)
  next
    case (Suc n)
    with that have n: "n < length ins" by simp
    have "prev_angle s ((out, m) # outs) (Suc n) = prev_angle s1 outs n"
      using u(2) by (cases n) (simp_all add: prev_angle_def)
    with r(3) n Suc show ?thesis by simp
  qed
  with run r(2) show ?case by simp
qed

text \<open>
  Claim C2. In angle mode, over ticks that all have lateral control active and the same
  speed \<open>v > 0\<close>, with a kinematic model that gives a non-negative rate cap \<open>k\<close> (the
  lateral-jerk budget over \<open>max(v,1)\<^sup>2\<close>, converted to an angle rate and divided by the
  100 Hz control frequency) and a non-negative maximum angle \<open>M\<close> at that speed: the run
  returns, and the commanded angle of every tick differs from the commanded angle of the
  tick before by at most \<open>min k MAX_ANGLE_RATE\<close>. For the first tick the command before
  is the persisted last command, which has to lie within the bounds of this speed, as the
  initial value 0 does.
\<close>

theorem angle_rate_limit_law:
  assumes "config_ok c" and "CANFD_ANGLE_STEERING \<in> flags c"
    and "0 < v" and "\<forall>i \<in> set ins. latActive i \<and> vEgoRaw i = v"
    and "get_max_angle_delta (max v 1) c 100 = Inr k"
    and "get_max_angle (max v 1) c = Inr M"
    and "0 \<le> k" and "0 \<le> M" and "0 \<le> STEER_ANGLE_MAX (params c)"
  shows "\<exists>s' outs. run c s ins = Inr (s', outs) \<and> length outs = length ins
          \<and> (\<forall>t < length ins.
                0 < t \<or> (\<bar>apply_angle_last s\<bar> \<le> M \<and> \<bar>apply_angle_last s\<bar> \<le> STEER_ANGLE_MAX (params c))
                \<longrightarrow> \<bar>out_steeringAngleDeg (fst (outs ! t)) - prev_angle s outs t\<bar>
                      \<le> min k MAX_ANGLE_RATE)"
proof (cases ins)
  case Nil
  then show ?thesis by simp
next
  case (Cons i ins')
  with assms(4) have act: "latActive i" and sp: "vEgoRaw i = v"
    and rest: "\<forall>i \<in> set ins'. latActive i \<and> vEgoRaw i = v" by simp_all
  obtain s1 out m where u: "update c s i = Inr (s1, out, m)"
      "apply_angle_last s1 = out_steeringAngleDeg out"
      "\<bar>out_steeringAngleDeg out\<bar> \<le> M" "\<bar>out_steeringAngleDeg out\<bar> \<le> STEER_ANGLE_MAX (params c)"
      "\<bar>apply_angle_last s\<bar> \<le> M \<longrightarrow> \<bar>apply_angle_last s\<bar> \<le> STEER_ANGLE_MAX (params c)
         \<longrightarrow> \<bar>out_steeringAngleDeg out - apply_angle_last s\<bar> \<le> min k MAX_ANGLE_RATE"
    using update_active_step[OF assms(1,2) act, of k M s] assms(5-9) sp by auto
  obtain s' outs where r: "run c s1 ins' = Inr (s', outs)" "length outs = length ins'"
      "\<forall>t < length ins'.
          \<bar>out_steeringAngleDeg (fst (outs ! t)) - prev_angle s1 outs t\<bar> \<le> min k MAX_ANGLE_RATE"
    using run_rate_in_range[OF assms(1,2) rest assms(5-9), of s1] u(2,3,4) by auto
  have run: "run c s ins = Inr (s', (out, m) # outs)"
    using u(1) r(1) Cons by simp
  have bound: "\<bar>out_steeringAngleDeg (fst (((out, m) # outs) ! t)) - prev_angle s ((out, m) # outs) t\<bar>
          \<le> min k MAX_ANGLE_RATE"
    if "t < length ins" and "0 < t \<or> (\<bar>apply_angle_last s\<bar> \<le> M \<and> \<bar>apply_angle_last s\<bar> \<le> STEER_ANGLE_MAX (params c))"
    for t
  proof (cases t)
    case 0
    with u(5) that(2) show ?thesis by (simp add: prev_angle_def)
  next
    case (Suc n)
    with that(1) Cons have n: "n < length ins'" by simp
    have "prev_angle s ((out, m) # outs) (Suc n) = prev_angle s1 outs n"
      using u(2) by (cases n) (simp_all add: prev_angle_def)
    with r(3) n Suc show ?thesis by simp
  qed
  have len: "length ((out, m) # outs) = length ins" using r(2) Cons by simp
  from run len bound show ?thesis by blast
qed


theorem angle_rate_limit_law_witness:
  "config_ok sample_config \<and> CANFD_ANGLE_STEERING \<in> flags sample_config \<and> (0::real) < 20
   \<and> latActive sample_in \<and> vEgoRaw sample_in = 20
   \<and> get_max_angle_delta (max 20 1) sample_config 100 =
        Inr (degrees (get_steer_from_curvature sample_config
                        (MAX_LATERAL_JERK sample_config / (max 20 1) ^ 2) (max 20 1) 0) / 100)
   \<and> get_max_angle (max 20 1) sample_config =
        Inr (degrees (get_steer_from_curvature sample_config
                        (MAX_LATERAL_ACCEL sample_config / (max 20 1) ^ 2) (max 20 1) 0))
   \<and> 0 \<le> degrees (get_steer_from_curvature sample_config
                        (MAX_LATERAL_JERK sample_config / (max 20 1) ^ 2) (max 20 1) 0) / 100
   \<and> 0 \<le> degrees (get_steer_from_curvature sample_config
                        (MAX_LATERAL_ACCEL sample_config / (max 20 1) ^ 2) (max 20 1) 0)
   \<and> 0 \<le> STEER_ANGLE_MAX (params sample_config)
   \<and> \<bar>apply_angle_last init_state\<bar>
        \<le> degrees (get_steer_from_curvature sample_config
                        (MAX_LATERAL_ACCEL sample_config / (max 20 1) ^ 2) (max 20 1) 0)
   \<and> \<bar>apply_angle_last init_state\<bar> \<le> STEER_ANGLE_MAX (params sample_config)
   \<and> (\<exists>s' outs. run sample_config init_state [sample_in, sample_in] = Inr (s', outs)
          \<and> length outs = 2
          \<and> \<bar>out_steeringAngleDeg (fst (outs ! 0)) - 0\<bar>
               \<le> min (degrees (get_steer_from_curvature sample_config
                        (MAX_LATERAL_JERK sample_config / (max 20 1) ^ 2) (max 20 1) 0) / 100) MAX_ANGLE_RATE
          \<and> \<bar>out_steeringAngleDeg (fst (outs ! 1)) - out_steeringAngleDeg (fst (outs ! 0))\<bar>
               \<le> min (degrees (get_steer_from_curvature sample_config
                        (MAX_LATERAL_JERK sample_config / (max 20 1) ^ 2) (max 20 1) 0) / 100) MAX_ANGLE_RATE)"
proof -
  let ?k = "degrees (get_steer_from_curvature sample_config
                        (MAX_LATERAL_JERK sample_config / (max 20 1) ^ 2) (max 20 1) 0) / 100"
  let ?M = "degrees (get_steer_from_curvature sample_config
                        (MAX_LATERAL_ACCEL sample_config / (max 20 1) ^ 2) (max 20 1) 0)"
  have h1: "config_ok sample_config"
    by (simp add: config_ok_def tables_ok_def sample_config_def sample_params_def)
  have h2: "CANFD_ANGLE_STEERING \<in> flags sample_config" by (simp add: sample_config_def)
  have h3: "(0::real) < 20" by simp
  have h4: "\<forall>i \<in> set [sample_in, sample_in]. latActive i \<and> vEgoRaw i = 20"
    by (simp add: sample_in_def)
  have h4': "latActive sample_in \<and> vEgoRaw sample_in = 20"
    by (simp add: sample_in_def)
  have h5: "get_max_angle_delta (max 20 1) sample_config 100 = Inr ?k"
    by (rule get_max_angle_delta_returns)
  have h6: "get_max_angle (max 20 1) sample_config = Inr ?M"
    by (rule get_max_angle_returns)
  have h7: "0 \<le> ?k"
    by (simp add: degrees_def sample_config_def MAX_LATERAL_JERK_def AVERAGE_ROAD_ROLL_def)
  have h8: "0 \<le> ?M"
    by (simp add: degrees_def sample_config_def MAX_LATERAL_ACCEL_def AVERAGE_ROAD_ROLL_def)
  have h9: "0 \<le> STEER_ANGLE_MAX (params sample_config)"
    by (simp add: sample_config_def sample_params_def)
  have h10: "\<bar>apply_angle_last init_state\<bar> \<le> ?M" using h8 by (simp add: init_state_def)
  have h11: "\<bar>apply_angle_last init_state\<bar> \<le> STEER_ANGLE_MAX (params sample_config)"
    using h9 by (simp add: init_state_def)
  obtain s' outs where r: "run sample_config init_state [sample_in, sample_in] = Inr (s', outs)"
    "length outs = length [sample_in, sample_in]"
    "\<forall>t < length [sample_in, sample_in].
                0 < t \<or> (\<bar>apply_angle_last init_state\<bar> \<le> ?M
                         \<and> \<bar>apply_angle_last init_state\<bar> \<le> STEER_ANGLE_MAX (params sample_config))
                \<longrightarrow> \<bar>out_steeringAngleDeg (fst (outs ! t)) - prev_angle init_state outs t\<bar>
                      \<le> min ?k MAX_ANGLE_RATE"
    using angle_rate_limit_law[OF h1 h2 h3 h4 h5 h6 h7 h8 h9, of init_state] by blast
  from r(3)[rule_format, of 0] h10 h11
  have t0: "\<bar>out_steeringAngleDeg (fst (outs ! 0)) - 0\<bar> \<le> min ?k MAX_ANGLE_RATE"
    by (simp add: prev_angle_def init_state_def)
  from r(3)[rule_format, of 1]
  have t1: "\<bar>out_steeringAngleDeg (fst (outs ! 1)) - out_steeringAngleDeg (fst (outs ! 0))\<bar>
              \<le> min ?k MAX_ANGLE_RATE"
    by (simp add: prev_angle_def)
  from r(2) have len: "length outs = 2" by simp
  from h1 h2 h3 h4' h5 h6 h7 h8 h9 h10 h11 r(1) len t0 t1 show ?thesis by blast
qed

subsection \<open>The override ramp\<close>

lemma gain_override:
  assumes "steeringPressed i" and "angle_torque_override_cycles c \<noteq> 0"
  shows "calculate_angle_torque_reduction_gain c s i x =
           Inr (ramp_step (min_torque_reduction_gain c) (angle_torque_override_cycles c) (apply_torque_last s))"
  using assms by (simp add: calculate_angle_torque_reduction_gain_def ramp_step_def Let_def)

lemma ramp_aux:
  fixes g mn r :: real
  assumes "mn \<le> g"
  shows "mn \<le> max (g - max r 0.004) mn \<and> max (g - max r 0.004) mn \<le> g
       \<and> max (g - max r 0.004) mn \<le> max (g - 0.004) mn"
  using assms by (auto simp: max_def)

lemma ramp_chain:
  fixes a b x mn d e :: real
  assumes "x \<le> max (b - e) mn" and "b \<le> max (a - d) mn" and "0 \<le> e"
  shows "x \<le> max (a - (d + e)) mn"
  using assms by linarith

lemma ramp_step_bounds:
  assumes "mn \<le> g"
  shows "mn \<le> ramp_step mn cyc g \<and> ramp_step mn cyc g \<le> g
       \<and> ramp_step mn cyc g \<le> max (g - 0.004) mn"
  unfolding ramp_step_def by (rule ramp_aux[OF assms])

lemma override_tick:
  assumes "config_ok c" and "CANFD_ANGLE_STEERING \<in> flags c"
    and "min_torque_reduction_gain c \<le> max_torque_reduction_gain c"
    and "latActive i" and "steeringPressed i"
  shows "\<exists>s' out m. update c s i = Inr (s', out, m)
          \<and> apply_torque_last s' = out_torqueOutputCan out
          \<and> min_torque_reduction_gain c \<le> out_torqueOutputCan out
          \<and> out_torqueOutputCan out \<le> max_torque_reduction_gain c
          \<and> (min_torque_reduction_gain c \<le> apply_torque_last s
               \<and> apply_torque_last s \<le> max_torque_reduction_gain c
             \<longrightarrow> out_torqueOutputCan out =
                   ramp_step (min_torque_reduction_gain c) (angle_torque_override_cycles c) (apply_torque_last s)
                 \<and> out_torqueOutputCan out \<le> apply_torque_last s
                 \<and> out_torqueOutputCan out \<le> max (apply_torque_last s - 0.004) (min_torque_reduction_gain c))"
proof -
  from assms(1) have cyc: "angle_torque_override_cycles c \<noteq> 0" by (simp add: config_ok_def)
  obtain s' out m g where u:
     "calculate_angle_torque_reduction_gain c s i \<bar>act_torque i\<bar> = Inr g"
     "update c s i = Inr (s', out, m)"
     "out_torqueOutputCan out =
             (if latActive i then np_clip g (min_torque_reduction_gain c) (max_torque_reduction_gain c) else 0)"
     "apply_torque_last s' = out_torqueOutputCan out"
    using update_angle_mode[OF assms(1,2), of s i] by blast
  from u(1) gain_override[OF assms(5) cyc, of s "\<bar>act_torque i\<bar>"]
  have g: "g = ramp_step (min_torque_reduction_gain c) (angle_torque_override_cycles c) (apply_torque_last s)"
    by simp
  from u(3) assms(4)
  have out: "out_torqueOutputCan out = np_clip g (min_torque_reduction_gain c) (max_torque_reduction_gain c)"
    by simp
  have band: "min_torque_reduction_gain c \<le> out_torqueOutputCan out
          \<and> out_torqueOutputCan out \<le> max_torque_reduction_gain c"
    using np_clip_bounds[OF assms(3), of g] out by simp
  have inr: "out_torqueOutputCan out = g \<and> g \<le> apply_torque_last s
               \<and> g \<le> max (apply_torque_last s - 0.004) (min_torque_reduction_gain c)"
    if a: "min_torque_reduction_gain c \<le> apply_torque_last s"
      and b: "apply_torque_last s \<le> max_torque_reduction_gain c"
  proof -
    from ramp_step_bounds[OF a, of "angle_torque_override_cycles c"] g
    have rb: "min_torque_reduction_gain c \<le> g" "g \<le> apply_torque_last s"
       "g \<le> max (apply_torque_last s - 0.004) (min_torque_reduction_gain c)" by simp_all
    from rb(1,2) b have "np_clip g (min_torque_reduction_gain c) (max_torque_reduction_gain c) = g"
      by (intro np_clip_id) simp_all
    with out rb show ?thesis by simp
  qed
  from u(2,4) band inr g show ?thesis by auto
qed

lemma run_override_in_range:
  assumes "config_ok c" and "CANFD_ANGLE_STEERING \<in> flags c"
    and "min_torque_reduction_gain c \<le> max_torque_reduction_gain c"
    and "\<forall>i \<in> set ins. latActive i \<and> steeringPressed i"
    and "min_torque_reduction_gain c \<le> apply_torque_last s"
    and "apply_torque_last s \<le> max_torque_reduction_gain c"
  shows "\<exists>s' outs. run c s ins = Inr (s', outs) \<and> length outs = length ins
          \<and> (\<forall>t < length ins.
                out_torqueOutputCan (fst (outs ! t)) \<le> prev_gain s outs t
              \<and> out_torqueOutputCan (fst (outs ! t)) =
                  ramp_step (min_torque_reduction_gain c) (angle_torque_override_cycles c) (prev_gain s outs t)
              \<and> min_torque_reduction_gain c \<le> out_torqueOutputCan (fst (outs ! t))
              \<and> out_torqueOutputCan (fst (outs ! t))
                  \<le> max (apply_torque_last s - 0.004 * of_nat (t + 1)) (min_torque_reduction_gain c))"
  using assms(4,5,6)
proof (induction ins arbitrary: s)
  case Nil
  show ?case by simp
next
  case (Cons i ins)
  let ?mn = "min_torque_reduction_gain c"
  let ?cyc = "angle_torque_override_cycles c"
  from Cons.prems(1) have act: "latActive i" and pr: "steeringPressed i"
    and rest: "\<forall>i \<in> set ins. latActive i \<and> steeringPressed i" by simp_all
  obtain s1 out m where u: "update c s i = Inr (s1, out, m)"
      "apply_torque_last s1 = out_torqueOutputCan out"
      "?mn \<le> out_torqueOutputCan out" "out_torqueOutputCan out \<le> max_torque_reduction_gain c"
      "out_torqueOutputCan out = ramp_step ?mn ?cyc (apply_torque_last s)"
      "out_torqueOutputCan out \<le> apply_torque_last s"
      "out_torqueOutputCan out \<le> max (apply_torque_last s - 0.004) ?mn"
    using override_tick[OF assms(1,2,3) act pr, of s] Cons.prems(2,3) by auto
  obtain s' outs where r: "run c s1 ins = Inr (s', outs)" "length outs = length ins"
      "\<forall>t < length ins.
                out_torqueOutputCan (fst (outs ! t)) \<le> prev_gain s1 outs t
              \<and> out_torqueOutputCan (fst (outs ! t)) = ramp_step ?mn ?cyc (prev_gain s1 outs t)
              \<and> ?mn \<le> out_torqueOutputCan (fst (outs ! t))
              \<and> out_torqueOutputCan (fst (outs ! t))
                  \<le> max (apply_torque_last s1 - 0.004 * of_nat (t + 1)) ?mn"
    using Cons.IH[OF rest, of s1] u(2,3,4) by auto
  have run: "run c s (i # ins) = Inr (s', (out, m) # outs)"
    using u(1) r(1) by simp
  have len: "length ((out, m) # outs) = length (i # ins)" using r(2) by simp
  have bound: "out_torqueOutputCan (fst (((out, m) # outs) ! t)) \<le> prev_gain s ((out, m) # outs) t
              \<and> out_torqueOutputCan (fst (((out, m) # outs) ! t))
                  = ramp_step ?mn ?cyc (prev_gain s ((out, m) # outs) t)
              \<and> ?mn \<le> out_torqueOutputCan (fst (((out, m) # outs) ! t))
              \<and> out_torqueOutputCan (fst (((out, m) # outs) ! t))
                  \<le> max (apply_torque_last s - 0.004 * of_nat (t + 1)) ?mn"
    if "t < length (i # ins)" for t
  proof (cases t)
    case 0
    with u show ?thesis by (simp add: prev_gain_def)
  next
    case (Suc n)
    with that have n: "n < length ins" by simp
    have pg: "prev_gain s ((out, m) # outs) (Suc n) = prev_gain s1 outs n"
      using u(2) by (cases n) (simp_all add: prev_gain_def)
    from r(3)[rule_format, OF n] have f: "out_torqueOutputCan (fst (outs ! n)) \<le> prev_gain s1 outs n"
      "out_torqueOutputCan (fst (outs ! n)) = ramp_step ?mn ?cyc (prev_gain s1 outs n)"
      "?mn \<le> out_torqueOutputCan (fst (outs ! n))"
      "out_torqueOutputCan (fst (outs ! n)) \<le> max (apply_torque_last s1 - 0.004 * of_nat (n + 1)) ?mn"
      by blast+
    have e: "(0::real) \<le> 0.004 * of_nat (n + 1)" by simp
    from f(4) u(7) have "out_torqueOutputCan (fst (outs ! n))
            \<le> max (apply_torque_last s - (0.004 + 0.004 * of_nat (n + 1))) ?mn"
      unfolding u(2) by (rule ramp_chain[OF _ _ e])
    moreover have "(0.004::real) + 0.004 * of_nat (n + 1) = 0.004 * of_nat (Suc n + 1)"
      by (simp add: algebra_simps)
    ultimately
    have "out_torqueOutputCan (fst (outs ! n)) \<le> max (apply_torque_last s - 0.004 * of_nat (Suc n + 1)) ?mn"
      by (simp only:)
    then have g4: "out_torqueOutputCan (fst (outs ! n)) \<le> max (apply_torque_last s - 0.004 * of_nat (t + 1)) ?mn"
      using Suc by simp
    have nth: "((out, m) # outs) ! t = outs ! n" using Suc by simp
    have pg': "prev_gain s ((out, m) # outs) t = prev_gain s1 outs n" using pg Suc by simp
    from f(1,2,3) g4 show ?thesis unfolding nth pg' by blast
  qed
  from run len bound show ?case by blast
qed


lemma reach_min:
  fixes mx mn g :: real
  assumes "mn \<le> g" and "g \<le> max (mx - 0.004 * of_nat (t + 1)) mn"
    and "nat \<lceil>(mx - mn) / 0.004\<rceil> \<le> t + 1"
  shows "g = mn"
proof -
  have "(mx - mn) / 0.004 \<le> of_nat (nat \<lceil>(mx - mn) / 0.004\<rceil>)"
    by (rule of_nat_ceiling)
  also have "\<dots> \<le> of_nat (t + 1)" using assms(3) by (simp only: of_nat_le_iff)
  finally have "(mx - mn) / 0.004 \<le> of_nat (t + 1)" .
  then have "mx - mn \<le> 0.004 * of_nat (t + 1)" by (simp add: field_simps)
  with assms(1,2) show ?thesis by linarith
qed

text \<open>
  Claim C6. In angle mode, over ticks that all have lateral control active and the driver
  pressing the wheel, with the minimum gain not above the maximum gain: the run returns;
  from the second tick on, and already at the first tick when the gain the run starts from
  lies between the minimum and the maximum gain, every gain is not above the gain before
  and is the gain before lowered by \<open>max((g - minGain) / overrideCycles, 0.004)\<close>, not
  below the minimum gain; and when the run starts from the maximum gain, the gain is the
  minimum gain from tick number \<open>\<lceil>(maxGain - minGain) / 0.004\<rceil>\<close> on. The values
  \<open>minGain = 0.1\<close> and \<open>overrideCycles = 25\<close> of the claim are those of the witness.
\<close>

theorem override_ramp_converges:
  assumes "config_ok c" and "CANFD_ANGLE_STEERING \<in> flags c"
    and "min_torque_reduction_gain c \<le> max_torque_reduction_gain c"
    and "\<forall>i \<in> set ins. latActive i \<and> steeringPressed i"
  shows "\<exists>s' outs. run c s ins = Inr (s', outs) \<and> length outs = length ins
          \<and> (\<forall>t < length ins.
                0 < t \<or> (min_torque_reduction_gain c \<le> apply_torque_last s
                          \<and> apply_torque_last s \<le> max_torque_reduction_gain c)
                \<longrightarrow> out_torqueOutputCan (fst (outs ! t)) \<le> prev_gain s outs t
                  \<and> out_torqueOutputCan (fst (outs ! t)) =
                      ramp_step (min_torque_reduction_gain c) (angle_torque_override_cycles c)
                        (prev_gain s outs t))
          \<and> (apply_torque_last s = max_torque_reduction_gain c \<longrightarrow>
               (\<forall>t < length ins.
                  nat \<lceil>(max_torque_reduction_gain c - min_torque_reduction_gain c) / 0.004\<rceil> \<le> t + 1
                  \<longrightarrow> out_torqueOutputCan (fst (outs ! t)) = min_torque_reduction_gain c))"
proof -
  let ?mn = "min_torque_reduction_gain c"
  let ?mx = "max_torque_reduction_gain c"
  let ?cyc = "angle_torque_override_cycles c"
  have A: "\<exists>s' outs. run c s ins = Inr (s', outs) \<and> length outs = length ins
          \<and> (\<forall>t < length ins.
                0 < t \<or> (?mn \<le> apply_torque_last s \<and> apply_torque_last s \<le> ?mx)
                \<longrightarrow> out_torqueOutputCan (fst (outs ! t)) \<le> prev_gain s outs t
                  \<and> out_torqueOutputCan (fst (outs ! t)) = ramp_step ?mn ?cyc (prev_gain s outs t))"
  proof (cases ins)
    case Nil
    then show ?thesis by simp
  next
    case (Cons i ins')
    with assms(4) have act: "latActive i" and pr: "steeringPressed i"
      and rest: "\<forall>i \<in> set ins'. latActive i \<and> steeringPressed i" by simp_all
    obtain s1 out m where u: "update c s i = Inr (s1, out, m)"
      "apply_torque_last s1 = out_torqueOutputCan out"
      "?mn \<le> out_torqueOutputCan out" "out_torqueOutputCan out \<le> ?mx"
      "?mn \<le> apply_torque_last s \<and> apply_torque_last s \<le> ?mx
         \<longrightarrow> out_torqueOutputCan out = ramp_step ?mn ?cyc (apply_torque_last s)
           \<and> out_torqueOutputCan out \<le> apply_torque_last s"
      using override_tick[OF assms(1,2,3) act pr, of s] by blast
    from u(2,3,4) have in1: "?mn \<le> apply_torque_last s1" "apply_torque_last s1 \<le> ?mx" by simp_all
    obtain s' outs where r: "run c s1 ins' = Inr (s', outs)" "length outs = length ins'"
      "\<forall>t < length ins'.
                out_torqueOutputCan (fst (outs ! t)) \<le> prev_gain s1 outs t
              \<and> out_torqueOutputCan (fst (outs ! t)) = ramp_step ?mn ?cyc (prev_gain s1 outs t)
              \<and> ?mn \<le> out_torqueOutputCan (fst (outs ! t))
              \<and> out_torqueOutputCan (fst (outs ! t))
                  \<le> max (apply_torque_last s1 - 0.004 * of_nat (t + 1)) ?mn"
      using run_override_in_range[OF assms(1,2,3) rest in1] by blast
    have run: "run c s ins = Inr (s', (out, m) # outs)"
      using u(1) r(1) Cons by simp
    have len: "length ((out, m) # outs) = length ins" using r(2) Cons by simp
    have bound: "out_torqueOutputCan (fst (((out, m) # outs) ! t)) \<le> prev_gain s ((out, m) # outs) t
              \<and> out_torqueOutputCan (fst (((out, m) # outs) ! t))
                  = ramp_step ?mn ?cyc (prev_gain s ((out, m) # outs) t)"
      if "t < length ins"
        and "0 < t \<or> (?mn \<le> apply_torque_last s \<and> apply_torque_last s \<le> ?mx)" for t
    proof (cases t)
      case 0
      have nth: "((out, m) # outs) ! t = (out, m)" using 0 by simp
      have pg: "prev_gain s ((out, m) # outs) t = apply_torque_last s"
        using 0 by (simp add: prev_gain_def)
      from u(5) that(2) 0 show ?thesis unfolding nth pg by simp
    next
      case (Suc n)
      with that(1) Cons have n: "n < length ins'" by simp
      have nth: "((out, m) # outs) ! t = outs ! n" using Suc by simp
      have pg: "prev_gain s ((out, m) # outs) t = prev_gain s1 outs n"
        using u(2) Suc by (cases n) (simp_all add: prev_gain_def)
      from r(3)[rule_format, OF n] show ?thesis unfolding nth pg by blast
    qed
    from run len bound show ?thesis by blast
  qed
  then obtain s' outs where a: "run c s ins = Inr (s', outs)" "length outs = length ins"
     "\<forall>t < length ins.
                0 < t \<or> (?mn \<le> apply_torque_last s \<and> apply_torque_last s \<le> ?mx)
                \<longrightarrow> out_torqueOutputCan (fst (outs ! t)) \<le> prev_gain s outs t
                  \<and> out_torqueOutputCan (fst (outs ! t)) = ramp_step ?mn ?cyc (prev_gain s outs t)"
    by blast
  have B: "out_torqueOutputCan (fst (outs ! t)) = ?mn"
    if top: "apply_torque_last s = ?mx" and t: "t < length ins"
      and n: "nat \<lceil>(?mx - ?mn) / 0.004\<rceil> \<le> t + 1" for t
  proof -
    from top assms(3) have in0: "?mn \<le> apply_torque_last s" "apply_torque_last s \<le> ?mx" by simp_all
    obtain s'' outs' where r: "run c s ins = Inr (s'', outs')"
      "\<forall>t < length ins.
                out_torqueOutputCan (fst (outs' ! t)) \<le> prev_gain s outs' t
              \<and> out_torqueOutputCan (fst (outs' ! t)) = ramp_step ?mn ?cyc (prev_gain s outs' t)
              \<and> ?mn \<le> out_torqueOutputCan (fst (outs' ! t))
              \<and> out_torqueOutputCan (fst (outs' ! t))
                  \<le> max (apply_torque_last s - 0.004 * of_nat (t + 1)) ?mn"
      using run_override_in_range[OF assms(1,2,3,4) in0] by blast
    from r(1) a(1) have eq: "outs' = outs" by simp
    from r(2)[rule_format, OF t]
    have "?mn \<le> out_torqueOutputCan (fst (outs ! t))"
      "out_torqueOutputCan (fst (outs ! t)) \<le> max (?mx - 0.004 * of_nat (t + 1)) ?mn"
      unfolding eq top by blast+
    from reach_min[OF this n] show ?thesis .
  qed
  from a B show ?thesis by blast
qed


theorem override_ramp_converges_witness:
  "config_ok sample_config \<and> CANFD_ANGLE_STEERING \<in> flags sample_config
   \<and> min_torque_reduction_gain sample_config = 0.1 \<and> angle_torque_override_cycles sample_config = 25
   \<and> min_torque_reduction_gain sample_config \<le> max_torque_reduction_gain sample_config
   \<and> latActive pressed_in \<and> steeringPressed pressed_in
   \<and> apply_torque_last (init_state\<lparr>apply_torque_last := 1\<rparr>) = max_torque_reduction_gain sample_config
   \<and> nat \<lceil>(max_torque_reduction_gain sample_config - min_torque_reduction_gain sample_config) / 0.004\<rceil> = 225
   \<and> (\<exists>s' outs. run sample_config (init_state\<lparr>apply_torque_last := 1\<rparr>) (replicate 225 pressed_in)
                     = Inr (s', outs)
          \<and> length outs = 225
          \<and> out_torqueOutputCan (fst (outs ! 0)) = 0.964
          \<and> out_torqueOutputCan (fst (outs ! 1)) \<le> out_torqueOutputCan (fst (outs ! 0))
          \<and> out_torqueOutputCan (fst (outs ! 224)) = 0.1)"
proof -
  let ?s = "init_state\<lparr>apply_torque_last := 1\<rparr>"
  let ?ins = "replicate 225 pressed_in"
  have h1: "config_ok sample_config"
    by (simp add: config_ok_def tables_ok_def sample_config_def sample_params_def)
  have h2: "CANFD_ANGLE_STEERING \<in> flags sample_config" by (simp add: sample_config_def)
  have h3: "min_torque_reduction_gain sample_config \<le> max_torque_reduction_gain sample_config"
    by (simp add: sample_config_def)
  have h4: "\<forall>i \<in> set ?ins. latActive i \<and> steeringPressed i"
    by (simp add: pressed_in_def sample_in_def)
  have h4': "latActive pressed_in \<and> steeringPressed pressed_in"
    by (simp add: pressed_in_def sample_in_def)
  have h5: "apply_torque_last ?s = max_torque_reduction_gain sample_config"
    by (simp add: sample_config_def)
  have h6: "nat \<lceil>(max_torque_reduction_gain sample_config - min_torque_reduction_gain sample_config) / 0.004\<rceil> = 225"
    by (simp add: sample_config_def)
  have h7: "min_torque_reduction_gain sample_config = 0.1 \<and> angle_torque_override_cycles sample_config = 25"
    by (simp add: sample_config_def)
  obtain s' outs where r: "run sample_config ?s ?ins = Inr (s', outs)" "length outs = length ?ins"
    "\<forall>t < length ?ins.
                0 < t \<or> (min_torque_reduction_gain sample_config \<le> apply_torque_last ?s
                          \<and> apply_torque_last ?s \<le> max_torque_reduction_gain sample_config)
                \<longrightarrow> out_torqueOutputCan (fst (outs ! t)) \<le> prev_gain ?s outs t
                  \<and> out_torqueOutputCan (fst (outs ! t)) =
                      ramp_step (min_torque_reduction_gain sample_config)
                        (angle_torque_override_cycles sample_config) (prev_gain ?s outs t)"
    "apply_torque_last ?s = max_torque_reduction_gain sample_config \<longrightarrow>
               (\<forall>t < length ?ins.
                  nat \<lceil>(max_torque_reduction_gain sample_config - min_torque_reduction_gain sample_config) / 0.004\<rceil> \<le> t + 1
                  \<longrightarrow> out_torqueOutputCan (fst (outs ! t)) = min_torque_reduction_gain sample_config)"
    using override_ramp_converges[OF h1 h2 h3 h4, of ?s] by blast
  from r(2) have len: "length outs = 225" by simp
  from r(3)[rule_format, of 0] h3 h5
  have t0: "out_torqueOutputCan (fst (outs ! 0)) = 0.964"
    by (simp add: prev_gain_def ramp_step_def sample_config_def)
  from r(3)[rule_format, of 1]
  have t1: "out_torqueOutputCan (fst (outs ! 1)) \<le> out_torqueOutputCan (fst (outs ! 0))"
    by (simp add: prev_gain_def)
  from r(4)[rule_format, OF h5, of 224] h6
  have t224: "out_torqueOutputCan (fst (outs ! 224)) = 0.1"
    by (simp add: sample_config_def)
  from h1 h2 h3 h4' h5 h6 h7 r(1) len t0 t1 t224 show ?thesis by blast
qed

subsection \<open>Counting the ticks of a period\<close>

lemma count_multiples:
  assumes "0 < k"
  shows "length (filter (\<lambda>t. t mod k = 0) [0..<n]) = (n + k - 1) div k"
proof (induction n)
  case 0
  from assms show ?case by simp
next
  case (Suc n)
  from assms have eq: "Suc n + k - 1 = Suc (n + k - 1)" by simp
  from assms have "Suc (n + k - 1) = n + k" by simp
  then have m: "Suc (n + k - 1) mod k = n mod k" by simp
  show ?case
    unfolding eq div_Suc m using Suc.IH by simp
qed

lemma keep_alive_ticks:
  assumes "n = 500"
  shows "filter (\<lambda>t. t mod 100 = 0) [0..<n] = [0, 100, 200, 300, 400::nat]"
proof (rule sorted_distinct_set_unique)
  show "sorted (filter (\<lambda>t. t mod 100 = 0) [0..<n])"
    by (rule sorted_wrt_filter) (rule sorted_upt)
  show "distinct (filter (\<lambda>t. t mod 100 = 0) [0..<n])"
    by (rule distinct_filter) (rule distinct_upt)
  show "sorted [0, 100, 200, 300, 400::nat]" by simp
  show "distinct [0, 100, 200, 300, 400::nat]" by simp
  show "set (filter (\<lambda>t. t mod 100 = 0) [0..<n]) = set [0, 100, 200, 300, 400::nat]"
  proof -
    have "(t < n \<and> t mod 100 = 0) = (t = 0 \<or> t = 100 \<or> t = 200 \<or> t = 300 \<or> t = 400)" for t :: nat
    proof
      assume a: "t < n \<and> t mod 100 = 0"
      then have "100 dvd t" by (simp add: mod_eq_0_iff_dvd)
      then obtain q where q: "t = 100 * q" by (auto elim: dvdE)
      with a assms have "q < 5" by simp
      then have "q = 0 \<or> q = 1 \<or> q = 2 \<or> q = 3 \<or> q = 4" by linarith
      with q show "t = 0 \<or> t = 100 \<or> t = 200 \<or> t = 300 \<or> t = 400" by auto
    next
      assume "t = 0 \<or> t = 100 \<or> t = 200 \<or> t = 300 \<or> t = 400"
      with assms show "t < n \<and> t mod 100 = 0" by auto
    qed
    then have c: "{t. t < n \<and> t mod 100 = 0} = {t. t = 0 \<or> t = 100 \<or> t = 200 \<or> t = 300 \<or> t = 400}"
      by (simp only:)
    have d: "{t::nat. t = 0 \<or> t = 100 \<or> t = 200 \<or> t = 300 \<or> t = 400} = set [0, 100, 200, 300, 400]"
      by auto
    have e: "set (filter (\<lambda>t. t mod 100 = 0) [0..<n]) = {t. t < n \<and> t mod 100 = 0}"
      by auto
    show ?thesis unfolding e c d ..
  qed
qed

lemma int_mod_numeral: "(int t mod numeral k = 0) = (t mod numeral k = 0)"
  by (metis of_nat_mod of_nat_numeral of_nat_eq_0_iff)

lemma ticks_with_char:
  assumes "\<forall>t < length outs. (filter P (snd (outs ! t)) \<noteq> []) = Q t"
  shows "ticks_with P outs = filter Q [0..<length outs]"
  unfolding ticks_with_def using assms by (intro filter_cong) auto

lemma count_msgs_snoc: "count_msgs P (outs @ [x]) = count_msgs P outs + length (filter P (snd x))"
  by (simp add: count_msgs_def)

lemma count_msgs_char:
  "\<forall>t < length outs. length (filter P (snd (outs ! t))) = (if Q t then 1 else 0)
   \<Longrightarrow> count_msgs P outs = length (filter Q [0..<length outs])"
proof (induction outs rule: rev_induct)
  case Nil
  show ?case by (simp add: count_msgs_def)
next
  case (snoc x outs)
  have "\<forall>t < length outs. length (filter P (snd (outs ! t))) = (if Q t then 1 else 0)"
  proof (intro allI impI)
    fix t assume t: "t < length outs"
    with snoc.prems have "length (filter P (snd ((outs @ [x]) ! t))) = (if Q t then 1 else 0)" by simp
    with t show "length (filter P (snd (outs ! t))) = (if Q t then 1 else 0)" by (simp add: nth_append)
  qed
  then have ih: "count_msgs P outs = length (filter Q [0..<length outs])" by (rule snoc.IH)
  have "length (filter P (snd ((outs @ [x]) ! length outs))) = (if Q (length outs) then 1 else 0)"
    using snoc.prems[rule_format, of "length outs"] by simp
  then have last: "length (filter P (snd x)) = (if Q (length outs) then 1 else 0)" by simp
  show ?case unfolding count_msgs_snoc ih last by simp
qed

subsection \<open>The ticks of a run\<close>

lemma update_frame:
  assumes "update c s i = Inr (s', out, m)"
  shows "frame s' = frame s + 1"
proof -
  from update_Inr_steering[OF assms] obtain s1 t r where
    ok: "STEER_MAX (params c) \<noteq> 0" and sc: "steering_control c s i = Inr (s1, t, r)" by blast
  from update_unfold[OF sc ok] assms steering_control_keeps[OF sc] show ?thesis by auto
qed

lemma run_returns:
  assumes "config_ok c"
  shows "\<exists>s' outs. run c s ins = Inr (s', outs)"
proof (induction ins arbitrary: s)
  case Nil
  show ?case by simp
next
  case (Cons i ins)
  obtain s1 out m where u: "update c s i = Inr (s1, out, m)"
    using update_returns[OF assms] by blast
  obtain s' outs where "run c s1 ins = Inr (s', outs)" using Cons.IH by blast
  with u show ?case by simp
qed

lemma run_nth:
  assumes "run c s ins = Inr (s', outs)"
  shows "length outs = length ins \<and> frame s' = frame s + int (length ins)
       \<and> (\<forall>t < length ins. \<exists>st st'. frame st = frame s + int t
             \<and> update c st (ins ! t) = Inr (st', fst (outs ! t), snd (outs ! t)))"
  using assms
proof (induction ins arbitrary: s outs)
  case Nil
  then show ?case by simp
next
  case (Cons i ins)
  from Cons.prems obtain s1 a m outs' where u: "update c s i = Inr (s1, a, m)"
    and r: "run c s1 ins = Inr (s', outs')" and o: "outs = (a, m) # outs'"
    by (auto split: sum.splits)
  from Cons.IH[OF r] have ih: "length outs' = length ins" "frame s' = frame s1 + int (length ins)"
    "\<forall>t < length ins. \<exists>st st'. frame st = frame s1 + int t
             \<and> update c st (ins ! t) = Inr (st', fst (outs' ! t), snd (outs' ! t))" by blast+
  have f1: "frame s1 = frame s + 1" by (rule update_frame[OF u])
  have "\<exists>st st'. frame st = frame s + int t
             \<and> update c st ((i # ins) ! t) = Inr (st', fst (outs ! t), snd (outs ! t))"
    if "t < length (i # ins)" for t
  proof (cases t)
    case 0
    with u o show ?thesis by auto
  next
    case (Suc n)
    with that have "n < length ins" by simp
    from ih(3)[rule_format, OF this] obtain st st' where
      st: "frame st = frame s1 + int n"
        "update c st (ins ! n) = Inr (st', fst (outs' ! n), snd (outs' ! n))"
      by blast
    from st(1) f1 Suc have a: "frame st = frame s + int t" by simp
    from st(2) Suc o
    have b: "update c st ((i # ins) ! t) = Inr (st', fst (outs ! t), snd (outs ! t))" by simp
    from a b show ?thesis by blast
  qed
  with ih(1,2) f1 o show ?case by auto
qed


subsection \<open>The messages of a tick on the legacy bus\<close>

lemma resend_check: "(of_int d * DT_CTRL > 0.1) = (d > 10)"
proof -
  have "(of_int d * DT_CTRL > 0.1) = ((of_int d :: real) > of_int 10)"
    by (simp add: DT_CTRL_def field_simps)
  then show ?thesis by (simp only: of_int_less_iff)
qed

lemma latch_check: "(of_int d * DT_CTRL \<ge> 0.15) = (d \<ge> 15)"
proof -
  have "(of_int d * DT_CTRL \<ge> 0.15) = ((of_int d :: real) \<ge> of_int 15)"
    by (simp add: DT_CTRL_def field_simps)
  then show ?thesis by (simp only: of_int_le_iff)
qed

lemma app_if: "(if b then xs @ ys else xs) = xs @ (if b then ys else [])"
  by simp

text \<open>The legacy builder as one list: the steering frame, the buttons, the periodic frames.\<close>

lemma create_can_msgs_eq:
  "create_can_msgs c s i r t f a =
     (Lkas11 t r f #
      (if \<not> openpilotLongitudinalControl c \<and> cruise_cancel i then [Clu11 CANCEL] else []) @
      (if \<not> openpilotLongitudinalControl c \<and> \<not> cruise_cancel i \<and> cruise_resume i
          \<and> 10 < frame s - last_button_frame s
       then replicate 25 (Clu11 RES_ACCEL) else []) @
      (if frame s mod 2 = 0 \<and> openpilotLongitudinalControl c
       then [AccCommands a (if act_longControlState i = pid then 3.0 else 1.0)] else []) @
      (if frame s mod 5 = 0 \<and> SEND_LFA \<in> flags c then [LfahdaMfc] else []) @
      (if frame s mod 20 = 0 \<and> openpilotLongitudinalControl c then [AccOpt] else []) @
      (if frame s mod 50 = 0 \<and> openpilotLongitudinalControl c \<and> \<not> escc_enabled i
       then [FrtRadarOpt] else []),
      if \<not> openpilotLongitudinalControl c \<and> \<not> cruise_cancel i \<and> cruise_resume i
          \<and> 15 \<le> frame s - last_button_frame s
      then s\<lparr>last_button_frame := frame s\<rparr> else s)"
  unfolding create_can_msgs_def resend_check latch_check Let_def
  by (cases "openpilotLongitudinalControl c"; cases "cruise_cancel i"; cases "cruise_resume i";
      cases "10 < frame s - last_button_frame s"; cases "15 \<le> frame s - last_button_frame s")
     (simp_all add: app_if split del: if_split)


lemma filter_if_single: "filter P (if b then [x] else []) = (if b \<and> P x then [x] else [])"
  by (cases b) auto

lemma filter_if_replicate:
  "filter P (if b then replicate n x else []) = (if b \<and> P x then replicate n x else [])"
  by (cases b) auto

lemma tester_present_kinds:
  "filter is_acc_commands (tester_present_msgs c s i) = []"
  "filter is_lfahda_mfc (tester_present_msgs c s i) = []"
  "filter is_acc_opt (tester_present_msgs c s i) = []"
  "filter is_frt_radar_opt (tester_present_msgs c s i) = []"
  "filter is_resume_msg (tester_present_msgs c s i) = []"
  "(filter is_tester_present (tester_present_msgs c s i) \<noteq> []) =
     (frame s mod 100 = 0
      \<and> \<not> (CANFD_CAMERA_SCC \<in> flags c \<or> escc_enabled i \<or> interceptor_available i)
      \<and> openpilotLongitudinalControl c)"
  by (simp_all add: tester_present_msgs_def Let_def split_def)

lemma legacy_kinds:
  "filter is_tester_present (fst (create_can_msgs c s i r t f a)) = []"
  "length (filter is_acc_commands (fst (create_can_msgs c s i r t f a))) =
     (if frame s mod 2 = 0 \<and> openpilotLongitudinalControl c then 1 else 0)"
  "length (filter is_lfahda_mfc (fst (create_can_msgs c s i r t f a))) =
     (if frame s mod 5 = 0 \<and> SEND_LFA \<in> flags c then 1 else 0)"
  "length (filter is_acc_opt (fst (create_can_msgs c s i r t f a))) =
     (if frame s mod 20 = 0 \<and> openpilotLongitudinalControl c then 1 else 0)"
  "length (filter is_frt_radar_opt (fst (create_can_msgs c s i r t f a))) =
     (if frame s mod 50 = 0 \<and> openpilotLongitudinalControl c \<and> \<not> escc_enabled i then 1 else 0)"
  by (simp_all add: create_can_msgs_eq filter_if_single filter_if_replicate)

lemma legacy_resume:
  "filter is_resume_msg (fst (create_can_msgs c s i r t f a)) =
     (if \<not> openpilotLongitudinalControl c \<and> \<not> cruise_cancel i \<and> cruise_resume i
         \<and> frame s - last_button_frame s > 10
      then replicate 25 (Clu11 RES_ACCEL) else [])"
  "last_button_frame (snd (create_can_msgs c s i r t f a)) =
     (if \<not> openpilotLongitudinalControl c \<and> \<not> cruise_cancel i \<and> cruise_resume i
         \<and> frame s - last_button_frame s \<ge> 15
      then frame s else last_button_frame s)"
  by (simp_all add: create_can_msgs_eq filter_if_single filter_if_replicate)

lemma legacy_tick:
  assumes "update c s i = Inr (s', out, m)" and "CANFD \<notin> flags c"
  shows "(filter is_tester_present m \<noteq> []) =
           (frame s mod 100 = 0
            \<and> \<not> (CANFD_CAMERA_SCC \<in> flags c \<or> escc_enabled i \<or> interceptor_available i)
            \<and> openpilotLongitudinalControl c)"
    and "length (filter is_acc_commands m) =
           (if frame s mod 2 = 0 \<and> openpilotLongitudinalControl c then 1 else 0)"
    and "length (filter is_lfahda_mfc m) =
           (if frame s mod 5 = 0 \<and> SEND_LFA \<in> flags c then 1 else 0)"
    and "length (filter is_acc_opt m) =
           (if frame s mod 20 = 0 \<and> openpilotLongitudinalControl c then 1 else 0)"
    and "length (filter is_frt_radar_opt m) =
           (if frame s mod 50 = 0 \<and> openpilotLongitudinalControl c \<and> \<not> escc_enabled i then 1 else 0)"
    and "filter is_resume_msg m =
           (if \<not> openpilotLongitudinalControl c \<and> \<not> cruise_cancel i \<and> cruise_resume i
               \<and> frame s - last_button_frame s > 10
            then replicate 25 (Clu11 RES_ACCEL) else [])"
    and "last_button_frame s' =
           (if \<not> openpilotLongitudinalControl c \<and> \<not> cruise_cancel i \<and> cruise_resume i
               \<and> frame s - last_button_frame s \<ge> 15
            then frame s else last_button_frame s)"
proof -
  from update_Inr_steering[OF assms(1)] obtain s1 t r where
    ok: "STEER_MAX (params c) \<noteq> 0" and sc: "steering_control c s i = Inr (s1, t, r)" by blast
  define ap where "ap = (if latActive i then t else 0)"
  define s2 where "s2 = s1\<lparr>apply_torque_last := ap\<rparr>"
  define accel where "accel = np_clip (act_accel i) (ACCEL_MIN (params c)) (ACCEL_MAX (params c))"
  define X where "X = (if CANFD \<in> flags c then create_canfd_msgs c s2 i r ap accel
              else create_can_msgs c s2 i r ap (latActive i \<and> \<not> r) accel)"
  from assms(2) have X: "X = create_can_msgs c s2 i r ap (latActive i \<and> \<not> r) accel"
    by (simp add: X_def)
  from update_msgs[OF sc ok ap_def s2_def accel_def X_def] assms(1)
  have m: "m = tester_present_msgs c s2 i @ fst X" and s': "s' = (snd X)\<lparr>frame := frame (snd X) + 1\<rparr>"
    by simp_all
  from steering_control_keeps[OF sc]
  have k: "frame s2 = frame s" "last_button_frame s2 = last_button_frame s"
    by (simp_all add: s2_def)
  show "(filter is_tester_present m \<noteq> []) =
           (frame s mod 100 = 0
            \<and> \<not> (CANFD_CAMERA_SCC \<in> flags c \<or> escc_enabled i \<or> interceptor_available i)
            \<and> openpilotLongitudinalControl c)"
    unfolding m X using tester_present_kinds(6)[of c s2 i] by (simp add: legacy_kinds k)
  show "length (filter is_acc_commands m) =
           (if frame s mod 2 = 0 \<and> openpilotLongitudinalControl c then 1 else 0)"
    unfolding m X by (simp add: legacy_kinds tester_present_kinds k)
  show "length (filter is_lfahda_mfc m) =
           (if frame s mod 5 = 0 \<and> SEND_LFA \<in> flags c then 1 else 0)"
    unfolding m X by (simp add: legacy_kinds tester_present_kinds k)
  show "length (filter is_acc_opt m) =
           (if frame s mod 20 = 0 \<and> openpilotLongitudinalControl c then 1 else 0)"
    unfolding m X by (simp add: legacy_kinds tester_present_kinds k)
  show "length (filter is_frt_radar_opt m) =
           (if frame s mod 50 = 0 \<and> openpilotLongitudinalControl c \<and> \<not> escc_enabled i then 1 else 0)"
    unfolding m X by (simp add: legacy_kinds tester_present_kinds k)
  show "filter is_resume_msg m =
           (if \<not> openpilotLongitudinalControl c \<and> \<not> cruise_cancel i \<and> cruise_resume i
               \<and> frame s - last_button_frame s > 10
            then replicate 25 (Clu11 RES_ACCEL) else [])"
    unfolding m X by (simp add: legacy_resume tester_present_kinds k)
  show "last_button_frame s' =
           (if \<not> openpilotLongitudinalControl c \<and> \<not> cruise_cancel i \<and> cruise_resume i
               \<and> frame s - last_button_frame s \<ge> 15
            then frame s else last_button_frame s)"
    unfolding s' X by (simp add: legacy_resume k)
qed

subsection \<open>The cadence of the legacy bus over a run\<close>

lemma run_legacy_tick:
  assumes "run c s ins = Inr (s', outs)" and "CANFD \<notin> flags c" and "t < length ins"
  shows "(filter is_tester_present (snd (outs ! t)) \<noteq> []) =
           ((frame s + int t) mod 100 = 0
            \<and> \<not> (CANFD_CAMERA_SCC \<in> flags c \<or> escc_enabled (ins ! t) \<or> interceptor_available (ins ! t))
            \<and> openpilotLongitudinalControl c)"
    and "length (filter is_acc_commands (snd (outs ! t))) =
           (if (frame s + int t) mod 2 = 0 \<and> openpilotLongitudinalControl c then 1 else 0)"
    and "length (filter is_lfahda_mfc (snd (outs ! t))) =
           (if (frame s + int t) mod 5 = 0 \<and> SEND_LFA \<in> flags c then 1 else 0)"
    and "length (filter is_acc_opt (snd (outs ! t))) =
           (if (frame s + int t) mod 20 = 0 \<and> openpilotLongitudinalControl c then 1 else 0)"
    and "length (filter is_frt_radar_opt (snd (outs ! t))) =
           (if (frame s + int t) mod 50 = 0 \<and> openpilotLongitudinalControl c
               \<and> \<not> escc_enabled (ins ! t) then 1 else 0)"
proof -
  from run_nth[OF assms(1)] assms(3) obtain st st' where
    f: "frame st = frame s + int t"
    and u: "update c st (ins ! t) = Inr (st', fst (outs ! t), snd (outs ! t))" by blast
  note lt = legacy_tick[OF u assms(2)]
  show "(filter is_tester_present (snd (outs ! t)) \<noteq> []) =
           ((frame s + int t) mod 100 = 0
            \<and> \<not> (CANFD_CAMERA_SCC \<in> flags c \<or> escc_enabled (ins ! t) \<or> interceptor_available (ins ! t))
            \<and> openpilotLongitudinalControl c)"
    using lt(1) unfolding f .
  show "length (filter is_acc_commands (snd (outs ! t))) =
           (if (frame s + int t) mod 2 = 0 \<and> openpilotLongitudinalControl c then 1 else 0)"
    using lt(2) unfolding f .
  show "length (filter is_lfahda_mfc (snd (outs ! t))) =
           (if (frame s + int t) mod 5 = 0 \<and> SEND_LFA \<in> flags c then 1 else 0)"
    using lt(3) unfolding f .
  show "length (filter is_acc_opt (snd (outs ! t))) =
           (if (frame s + int t) mod 20 = 0 \<and> openpilotLongitudinalControl c then 1 else 0)"
    using lt(4) unfolding f .
  show "length (filter is_frt_radar_opt (snd (outs ! t))) =
           (if (frame s + int t) mod 50 = 0 \<and> openpilotLongitudinalControl c
               \<and> \<not> escc_enabled (ins ! t) then 1 else 0)"
    using lt(5) unfolding f .
qed

lemma ticks_with_count:
  assumes "\<forall>t < length outs. length (filter P (snd (outs ! t))) = (if Q t then 1 else 0)"
  shows "ticks_with P outs = filter Q [0..<length outs]"
proof (rule ticks_with_char, intro allI impI)
  fix t assume "t < length outs"
  with assms have l: "length (filter P (snd (outs ! t))) = (if Q t then 1 else 0)" by blast
  show "(filter P (snd (outs ! t)) \<noteq> []) = Q t"
  proof (cases "Q t")
    case True
    with l have "length (filter P (snd (outs ! t))) = 1" by simp
    then have "filter P (snd (outs ! t)) \<noteq> []" by auto
    with True show ?thesis by simp
  next
    case False
    with l have "length (filter P (snd (outs ! t))) = 0" by simp
    then have "filter P (snd (outs ! t)) = []" by simp
    with False show ?thesis by simp
  qed
qed

lemma init_frame: "frame init_state + int t = int t"
  by (simp add: init_state_def)

text \<open>
  Claim C3. On the legacy bus, with the longitudinal control self-managed and the send-LFA
  flag set (and the camera-SCC flag of the extended bus clear), a run of 500 ticks from the
  state of construction returns and sends: an acceleration command batch on exactly the
  even ticks, 250 in all; a lane-icon message on exactly every 5th tick, 100 in all; an
  ACC-options batch on exactly every 20th tick, 25 in all. When no substitute radar or ADAS
  ECU is active on any tick, the keep-alive batches are sent at exactly the ticks
  0, 100, 200, 300 and 400, and a radar-option message on exactly every 50th tick, 10 in
  all. When the substitute radar ECU is enabled on every tick, no radar-option message is
  sent.
\<close>

theorem legacy_cadence_500:
  assumes "config_ok c" and "CANFD \<notin> flags c" and "CANFD_CAMERA_SCC \<notin> flags c"
    and "openpilotLongitudinalControl c" and "SEND_LFA \<in> flags c" and "length ins = 500"
  shows "\<exists>s' outs. run c init_state ins = Inr (s', outs) \<and> length outs = 500
     \<and> ticks_with is_acc_commands outs = filter (\<lambda>t. t mod 2 = 0) [0..<500]
     \<and> count_msgs is_acc_commands outs = 250
     \<and> ticks_with is_lfahda_mfc outs = filter (\<lambda>t. t mod 5 = 0) [0..<500]
     \<and> count_msgs is_lfahda_mfc outs = 100
     \<and> ticks_with is_acc_opt outs = filter (\<lambda>t. t mod 20 = 0) [0..<500]
     \<and> count_msgs is_acc_opt outs = 25
     \<and> ((\<forall>i \<in> set ins. \<not> escc_enabled i \<and> \<not> interceptor_available i) \<longrightarrow>
           ticks_with is_tester_present outs = [0, 100, 200, 300, 400]
         \<and> ticks_with is_frt_radar_opt outs = filter (\<lambda>t. t mod 50 = 0) [0..<500]
         \<and> count_msgs is_frt_radar_opt outs = 10)
     \<and> ((\<forall>i \<in> set ins. escc_enabled i) \<longrightarrow>
           ticks_with is_frt_radar_opt outs = [] \<and> count_msgs is_frt_radar_opt outs = 0)"
proof -
  obtain s' outs where run: "run c init_state ins = Inr (s', outs)"
    using run_returns[OF assms(1)] by blast
  from run_nth[OF run] have lo: "length outs = length ins" by blast
  with assms(6) have len: "length outs = 500" by simp
  note tick = run_legacy_tick[OF run assms(2), unfolded init_frame int_mod_numeral]
  \<comment> \<open>the acceleration commands\<close>
  have acc: "\<forall>t < length outs. length (filter is_acc_commands (snd (outs ! t))) = (if t mod 2 = 0 then 1 else 0)"
    using tick(2) assms(4) lo by simp
  have acc_t: "ticks_with is_acc_commands outs = filter (\<lambda>t. t mod 2 = 0) [0..<500]"
    using ticks_with_count[OF acc] unfolding len .
  have "count_msgs is_acc_commands outs = (length outs + 2 - 1) div 2"
    using count_msgs_char[OF acc] count_multiples[of 2 "length outs"] by simp
  then have acc_n: "count_msgs is_acc_commands outs = 250" unfolding len by simp
  \<comment> \<open>the lane icons\<close>
  have lfa: "\<forall>t < length outs. length (filter is_lfahda_mfc (snd (outs ! t))) = (if t mod 5 = 0 then 1 else 0)"
    using tick(3) assms(5) lo by simp
  have lfa_t: "ticks_with is_lfahda_mfc outs = filter (\<lambda>t. t mod 5 = 0) [0..<500]"
    using ticks_with_count[OF lfa] unfolding len .
  have "count_msgs is_lfahda_mfc outs = (length outs + 5 - 1) div 5"
    using count_msgs_char[OF lfa] count_multiples[of 5 "length outs"] by simp
  then have lfa_n: "count_msgs is_lfahda_mfc outs = 100" unfolding len by simp
  \<comment> \<open>the options\<close>
  have opt: "\<forall>t < length outs. length (filter is_acc_opt (snd (outs ! t))) = (if t mod 20 = 0 then 1 else 0)"
    using tick(4) assms(4) lo by simp
  have opt_t: "ticks_with is_acc_opt outs = filter (\<lambda>t. t mod 20 = 0) [0..<500]"
    using ticks_with_count[OF opt] unfolding len .
  have "count_msgs is_acc_opt outs = (length outs + 20 - 1) div 20"
    using count_msgs_char[OF opt] count_multiples[of 20 "length outs"] by simp
  then have opt_n: "count_msgs is_acc_opt outs = 25" unfolding len by simp
  \<comment> \<open>no substitute ECU: the keep-alive batches and the radar options\<close>
  have nosub: "ticks_with is_tester_present outs = [0, 100, 200, 300, 400]
         \<and> ticks_with is_frt_radar_opt outs = filter (\<lambda>t. t mod 50 = 0) [0..<500]
         \<and> count_msgs is_frt_radar_opt outs = 10"
    if h: "\<forall>i \<in> set ins. \<not> escc_enabled i \<and> \<not> interceptor_available i"
  proof -
    have off: "\<not> escc_enabled (ins ! t) \<and> \<not> interceptor_available (ins ! t)" if "t < length ins" for t
      using h nth_mem[OF that] by blast
    have tp: "\<forall>t < length outs. (filter is_tester_present (snd (outs ! t)) \<noteq> []) = (t mod 100 = 0)"
      using tick(1) assms(3,4) off lo by simp
    have "ticks_with is_tester_present outs = filter (\<lambda>t. t mod 100 = 0) [0..<length outs]"
      by (rule ticks_with_char[OF tp])
    then have tp_t: "ticks_with is_tester_present outs = [0, 100, 200, 300, 400]"
      unfolding keep_alive_ticks[OF len] .
    have rad: "\<forall>t < length outs. length (filter is_frt_radar_opt (snd (outs ! t))) = (if t mod 50 = 0 then 1 else 0)"
      using tick(5) assms(4) off lo by simp
    have rad_t: "ticks_with is_frt_radar_opt outs = filter (\<lambda>t. t mod 50 = 0) [0..<500]"
      using ticks_with_count[OF rad] unfolding len .
    have "count_msgs is_frt_radar_opt outs = (length outs + 50 - 1) div 50"
      using count_msgs_char[OF rad] count_multiples[of 50 "length outs"] by simp
    then have rad_n: "count_msgs is_frt_radar_opt outs = 10" unfolding len by simp
    from tp_t rad_t rad_n show ?thesis by blast
  qed
  \<comment> \<open>the substitute radar ECU enabled: no radar option\<close>
  have sub: "ticks_with is_frt_radar_opt outs = [] \<and> count_msgs is_frt_radar_opt outs = 0"
    if h: "\<forall>i \<in> set ins. escc_enabled i"
  proof -
    have on: "escc_enabled (ins ! t)" if "t < length ins" for t
      using h nth_mem[OF that] by blast
    have rad: "\<forall>t < length outs. length (filter is_frt_radar_opt (snd (outs ! t))) = (if False then 1 else 0)"
      using tick(5) on lo by simp
    have "ticks_with is_frt_radar_opt outs = filter (\<lambda>t. False) [0..<length outs]"
      by (rule ticks_with_count[OF rad])
    then have rad_t: "ticks_with is_frt_radar_opt outs = []" by simp
    have "count_msgs is_frt_radar_opt outs = length (filter (\<lambda>t. False) [0..<length outs])"
      by (rule count_msgs_char[OF rad])
    then have rad_n: "count_msgs is_frt_radar_opt outs = 0" by simp
    from rad_t rad_n show ?thesis by blast
  qed
  show ?thesis
  proof (intro exI conjI impI)
    show "run c init_state ins = Inr (s', outs)" by (rule run)
    show "length outs = 500" by (rule len)
    show "ticks_with is_acc_commands outs = filter (\<lambda>t. t mod 2 = 0) [0..<500]" by (rule acc_t)
    show "count_msgs is_acc_commands outs = 250" by (rule acc_n)
    show "ticks_with is_lfahda_mfc outs = filter (\<lambda>t. t mod 5 = 0) [0..<500]" by (rule lfa_t)
    show "count_msgs is_lfahda_mfc outs = 100" by (rule lfa_n)
    show "ticks_with is_acc_opt outs = filter (\<lambda>t. t mod 20 = 0) [0..<500]" by (rule opt_t)
    show "count_msgs is_acc_opt outs = 25" by (rule opt_n)
    show "ticks_with is_tester_present outs = [0, 100, 200, 300, 400]"
      if "\<forall>i \<in> set ins. \<not> escc_enabled i \<and> \<not> interceptor_available i"
      using nosub[OF that] by blast
    show "ticks_with is_frt_radar_opt outs = filter (\<lambda>t. t mod 50 = 0) [0..<500]"
      if "\<forall>i \<in> set ins. \<not> escc_enabled i \<and> \<not> interceptor_available i"
      using nosub[OF that] by blast
    show "count_msgs is_frt_radar_opt outs = 10"
      if "\<forall>i \<in> set ins. \<not> escc_enabled i \<and> \<not> interceptor_available i"
      using nosub[OF that] by blast
    show "ticks_with is_frt_radar_opt outs = []" if "\<forall>i \<in> set ins. escc_enabled i"
      using sub[OF that] by blast
    show "count_msgs is_frt_radar_opt outs = 0" if "\<forall>i \<in> set ins. escc_enabled i"
      using sub[OF that] by blast
  qed
qed


theorem legacy_cadence_500_witness:
  "config_ok torque_config \<and> CANFD \<notin> flags torque_config \<and> CANFD_CAMERA_SCC \<notin> flags torque_config
   \<and> openpilotLongitudinalControl torque_config \<and> SEND_LFA \<in> flags torque_config
   \<and> length (replicate 500 sample_in) = 500
   \<and> \<not> escc_enabled sample_in \<and> \<not> interceptor_available sample_in
   \<and> escc_enabled (sample_in\<lparr>escc_enabled := True\<rparr>)
   \<and> (\<exists>s' outs. run torque_config init_state (replicate 500 sample_in) = Inr (s', outs)
         \<and> length outs = 500
         \<and> ticks_with is_tester_present outs = [0, 100, 200, 300, 400]
         \<and> count_msgs is_acc_commands outs = 250
         \<and> count_msgs is_lfahda_mfc outs = 100
         \<and> count_msgs is_acc_opt outs = 25
         \<and> count_msgs is_frt_radar_opt outs = 10)
   \<and> (\<exists>s' outs. run torque_config init_state (replicate 500 (sample_in\<lparr>escc_enabled := True\<rparr>))
                     = Inr (s', outs)
         \<and> length outs = 500
         \<and> count_msgs is_frt_radar_opt outs = 0)"
proof -
  have h1: "config_ok torque_config"
    by (simp add: config_ok_def tables_ok_def torque_config_def sample_config_def sample_params_def)
  have h2: "CANFD \<notin> flags torque_config" by (simp add: torque_config_def)
  have h3: "CANFD_CAMERA_SCC \<notin> flags torque_config" by (simp add: torque_config_def)
  have h4: "openpilotLongitudinalControl torque_config" by (simp add: torque_config_def)
  have h5: "SEND_LFA \<in> flags torque_config" by (simp add: torque_config_def)
  have h6: "length (replicate 500 sample_in) = 500" by simp
  have h6': "length (replicate 500 (sample_in\<lparr>escc_enabled := True\<rparr>)) = 500" by simp
  have h7: "\<not> escc_enabled sample_in \<and> \<not> interceptor_available sample_in"
    by (simp add: sample_in_def)
  have h8: "escc_enabled (sample_in\<lparr>escc_enabled := True\<rparr>)" by simp
  have a7: "\<forall>i \<in> set (replicate 500 sample_in). \<not> escc_enabled i \<and> \<not> interceptor_available i"
    using h7 by simp
  have a8: "\<forall>i \<in> set (replicate 500 (sample_in\<lparr>escc_enabled := True\<rparr>)). escc_enabled i"
    by simp
  have r1: "\<exists>s' outs. run torque_config init_state (replicate 500 sample_in) = Inr (s', outs)
         \<and> length outs = 500
         \<and> ticks_with is_tester_present outs = [0, 100, 200, 300, 400]
         \<and> count_msgs is_acc_commands outs = 250
         \<and> count_msgs is_lfahda_mfc outs = 100
         \<and> count_msgs is_acc_opt outs = 25
         \<and> count_msgs is_frt_radar_opt outs = 10"
    using legacy_cadence_500[OF h1 h2 h3 h4 h5 h6] a7 by blast
  have r2: "\<exists>s' outs. run torque_config init_state (replicate 500 (sample_in\<lparr>escc_enabled := True\<rparr>))
                     = Inr (s', outs)
         \<and> length outs = 500
         \<and> count_msgs is_frt_radar_opt outs = 0"
    using legacy_cadence_500[OF h1 h2 h3 h4 h5 h6'] a8 by blast
  from h1 h2 h3 h4 h5 h6 h7 h8 r1 r2 show ?thesis by blast
qed

subsection \<open>The cycle of the resume latch\<close>

lemma cyc_step:
  fixes d n :: int
  assumes "1 \<le> d" and "d \<le> 15"
  shows "1 \<le> (if 15 \<le> d then 1 else d + 1) \<and> (if 15 \<le> d then 1 else d + 1) \<le> 15
       \<and> ((if 15 \<le> d then 1 else d + 1) - 1 + n) mod 15 = (d - 1 + (n + 1)) mod 15"
proof (cases "15 \<le> d")
  case True
  with assms have "d = 15" by simp
  then show ?thesis by simp
next
  case False
  then have "d + 1 - 1 + n = d - 1 + (n + 1)" by simp
  with False assms show ?thesis by simp
qed

lemma cyc_small:
  fixes d :: int
  assumes "1 \<le> d" and "d \<le> 15"
  shows "(10 \<le> (d - 1 + 0) mod 15) = (10 < d)"
proof -
  from assms have "(d - 1) mod 15 = d - 1" by simp
  then show ?thesis by auto
qed

lemma int_mod15: "(10 \<le> int n mod 15) = (10 \<le> n mod 15)"
proof -
  have "int (n mod 15) = int n mod 15" by (simp add: zmod_int)
  then show ?thesis by linarith
qed

lemma range_a: "t \<le> 10 \<Longrightarrow> \<not> (0 < t \<and> 10 \<le> (t - 1) mod 15)" for t :: nat
proof -
  assume a: "t \<le> 10"
  then have "(t - 1) mod 15 = t - 1" by simp
  with a show ?thesis by linarith
qed

lemma range_b: "11 \<le> t \<Longrightarrow> t \<le> 15 \<Longrightarrow> 0 < t \<and> 10 \<le> (t - 1) mod 15" for t :: nat
proof -
  assume a: "11 \<le> t" "t \<le> 15"
  then have "(t - 1) mod 15 = t - 1" by simp
  with a show ?thesis by linarith
qed

lemma range_c: "16 \<le> t \<Longrightarrow> t \<le> 25 \<Longrightarrow> \<not> (0 < t \<and> 10 \<le> (t - 1) mod 15)" for t :: nat
proof -
  assume a: "16 \<le> t" "t \<le> 25"
  then have "t - 1 = (t - 16) + 15" by simp
  then have "(t - 1) mod 15 = (t - 16) mod 15" by (simp only: mod_add_self2)
  also from a have "\<dots> = t - 16" by simp
  finally show ?thesis using a by linarith
qed

lemma latch_value: "(n::int) - ((0 + (n - 1)) mod 15 + 1) = 15 * ((n - 1) div 15)"
proof -
  have "(n - 1) - (n - 1) mod 15 = 15 * ((n - 1) div 15)" by (rule minus_mod_eq_mult_div)
  moreover have "(0 + (n - 1)) mod 15 = (n - 1) mod 15" by simp
  ultimately show ?thesis by linarith
qed


subsection \<open>The resume throttle of the legacy bus\<close>

lemma resume_tick:
  assumes "config_ok c" and "CANFD \<notin> flags c" and "\<not> openpilotLongitudinalControl c"
    and "\<not> cruise_cancel i" and "cruise_resume i"
  shows "\<exists>s' out m. update c s i = Inr (s', out, m) \<and> frame s' = frame s + 1
          \<and> filter is_resume_msg m =
              (if 10 < frame s - last_button_frame s then replicate 25 (Clu11 RES_ACCEL) else [])
          \<and> last_button_frame s' =
              (if 15 \<le> frame s - last_button_frame s then frame s else last_button_frame s)"
proof -
  obtain s' out m where u: "update c s i = Inr (s', out, m)"
    using update_returns[OF assms(1)] by blast
  from legacy_tick(6,7)[OF u assms(2)] update_frame[OF u] assms(3,4,5) u
  show ?thesis by simp
qed

lemma run_resume_cycle:
  assumes "config_ok c" and "CANFD \<notin> flags c" and "\<not> openpilotLongitudinalControl c"
    and "\<forall>i \<in> set ins. \<not> cruise_cancel i \<and> cruise_resume i"
    and "1 \<le> frame s - last_button_frame s" and "frame s - last_button_frame s \<le> 15"
  shows "\<exists>s' outs. run c s ins = Inr (s', outs) \<and> length outs = length ins
          \<and> frame s' = frame s + int (length ins)
          \<and> frame s' - last_button_frame s' =
               (frame s - last_button_frame s - 1 + int (length ins)) mod 15 + 1
          \<and> (\<forall>t < length ins. filter is_resume_msg (snd (outs ! t)) =
                (if 10 \<le> (frame s - last_button_frame s - 1 + int t) mod 15
                 then replicate 25 (Clu11 RES_ACCEL) else []))"
  using assms(4,5,6)
proof (induction ins arbitrary: s)
  case Nil
  then show ?case by simp
next
  case (Cons i ins)
  let ?d = "frame s - last_button_frame s"
  from Cons.prems(1) have i: "\<not> cruise_cancel i" "cruise_resume i"
    and rest: "\<forall>i \<in> set ins. \<not> cruise_cancel i \<and> cruise_resume i" by simp_all
  obtain s1 out m where u: "update c s i = Inr (s1, out, m)" "frame s1 = frame s + 1"
    "filter is_resume_msg m = (if 10 < ?d then replicate 25 (Clu11 RES_ACCEL) else [])"
    "last_button_frame s1 = (if 15 \<le> ?d then frame s else last_button_frame s)"
    using resume_tick[OF assms(1,2,3) i, of s] by blast
  have d1: "frame s1 - last_button_frame s1 = (if 15 \<le> ?d then 1 else ?d + 1)"
    using u(2,4) by simp
  note cs = cyc_step[OF Cons.prems(2,3)]
  from cs d1 have in1: "1 \<le> frame s1 - last_button_frame s1" "frame s1 - last_button_frame s1 \<le> 15"
    by simp_all
  obtain s' outs where r: "run c s1 ins = Inr (s', outs)" "length outs = length ins"
    "frame s' = frame s1 + int (length ins)"
    "frame s' - last_button_frame s' =
               (frame s1 - last_button_frame s1 - 1 + int (length ins)) mod 15 + 1"
    "\<forall>t < length ins. filter is_resume_msg (snd (outs ! t)) =
                (if 10 \<le> (frame s1 - last_button_frame s1 - 1 + int t) mod 15
                 then replicate 25 (Clu11 RES_ACCEL) else [])"
    using Cons.IH[OF rest in1] by blast
  have shift: "(frame s1 - last_button_frame s1 - 1 + n) mod 15 = (?d - 1 + (n + 1)) mod 15" for n
    unfolding d1 using cs by blast
  have run: "run c s (i # ins) = Inr (s', (out, m) # outs)" using u(1) r(1) by simp
  have len: "length ((out, m) # outs) = length (i # ins)" using r(2) by simp
  have fr: "frame s' = frame s + int (length (i # ins))" using r(3) u(2) by simp
  have lt: "frame s' - last_button_frame s' = (?d - 1 + int (length (i # ins))) mod 15 + 1"
    using r(4) shift[of "int (length ins)"] by simp
  have msgs: "filter is_resume_msg (snd (((out, m) # outs) ! t)) =
                (if 10 \<le> (?d - 1 + int t) mod 15 then replicate 25 (Clu11 RES_ACCEL) else [])"
    if "t < length (i # ins)" for t
  proof (cases t)
    case 0
    have "(10 \<le> (?d - 1 + 0) mod 15) = (10 < ?d)" by (rule cyc_small[OF Cons.prems(2,3)])
    with u(3) 0 show ?thesis by simp
  next
    case (Suc n)
    with that have n: "n < length ins" by simp
    have "int t = int n + 1" using Suc by simp
    then have "(?d - 1 + int t) mod 15 = (frame s1 - last_button_frame s1 - 1 + int n) mod 15"
      using shift[of "int n"] by simp
    with r(5)[rule_format, OF n] Suc show ?thesis by simp
  qed
  from run len fr lt msgs show ?case by blast
qed

lemma resume_run_from_init:
  assumes "config_ok c" and "CANFD \<notin> flags c" and "\<not> openpilotLongitudinalControl c"
    and "\<forall>i \<in> set ins. \<not> cruise_cancel i \<and> cruise_resume i"
  shows "\<exists>s' outs. run c init_state ins = Inr (s', outs) \<and> length outs = length ins
          \<and> (\<forall>t < length ins. filter is_resume_msg (snd (outs ! t)) =
                (if 0 < t \<and> 10 \<le> (t - 1) mod 15 then replicate 25 (Clu11 RES_ACCEL) else []))
          \<and> (ins \<noteq> [] \<longrightarrow> last_button_frame s' = 15 * ((int (length ins) - 1) div 15))"
proof (cases ins)
  case Nil
  then show ?thesis by simp
next
  case (Cons i ins')
  with assms(4) have i: "\<not> cruise_cancel i" "cruise_resume i"
    and rest: "\<forall>i \<in> set ins'. \<not> cruise_cancel i \<and> cruise_resume i" by simp_all
  obtain s1 out m where u: "update c init_state i = Inr (s1, out, m)" "frame s1 = frame init_state + 1"
    "filter is_resume_msg m =
       (if 10 < frame init_state - last_button_frame init_state then replicate 25 (Clu11 RES_ACCEL) else [])"
    "last_button_frame s1 =
       (if 15 \<le> frame init_state - last_button_frame init_state then frame init_state
        else last_button_frame init_state)"
    using resume_tick[OF assms(1,2,3) i, of init_state] by blast
  have f1: "frame s1 = 1" and l1: "last_button_frame s1 = 0" and m0: "filter is_resume_msg m = []"
    using u(2,3,4) by (simp_all add: init_state_def)
  have in1: "1 \<le> frame s1 - last_button_frame s1" "frame s1 - last_button_frame s1 \<le> 15"
    using f1 l1 by simp_all
  obtain s' outs where r: "run c s1 ins' = Inr (s', outs)" "length outs = length ins'"
    "frame s' = frame s1 + int (length ins')"
    "frame s' - last_button_frame s' =
               (frame s1 - last_button_frame s1 - 1 + int (length ins')) mod 15 + 1"
    "\<forall>t < length ins'. filter is_resume_msg (snd (outs ! t)) =
                (if 10 \<le> (frame s1 - last_button_frame s1 - 1 + int t) mod 15
                 then replicate 25 (Clu11 RES_ACCEL) else [])"
    using run_resume_cycle[OF assms(1,2,3) rest in1] by blast
  have run: "run c init_state ins = Inr (s', (out, m) # outs)" using u(1) r(1) Cons by simp
  have len: "length ((out, m) # outs) = length ins" using r(2) Cons by simp
  have msgs: "filter is_resume_msg (snd (((out, m) # outs) ! t)) =
                (if 0 < t \<and> 10 \<le> (t - 1) mod 15 then replicate 25 (Clu11 RES_ACCEL) else [])"
    if "t < length ins" for t
  proof (cases t)
    case 0
    with m0 show ?thesis by simp
  next
    case (Suc n)
    with that Cons have n: "n < length ins'" by simp
    have "(10 \<le> (frame s1 - last_button_frame s1 - 1 + int n) mod 15) = (10 \<le> n mod 15)"
      using f1 l1 int_mod15[of n] by simp
    with r(5)[rule_format, OF n] Suc show ?thesis by simp
  qed
  have fr: "frame s' = int (length ins)" using r(3) f1 Cons by simp
  have "frame s' - last_button_frame s' = (0 + (int (length ins) - 1)) mod 15 + 1"
    using r(4) f1 l1 Cons by simp
  then have "last_button_frame s' = int (length ins) - ((0 + (int (length ins) - 1)) mod 15 + 1)"
    using fr by linarith
  then have latch: "last_button_frame s' = 15 * ((int (length ins) - 1) div 15)"
    unfolding latch_value .
  from run len msgs latch show ?thesis by blast
qed


text \<open>
  Claim C4, as amended. On the legacy bus, with the longitudinal control not self-managed,
  resume requested on every tick of a run from the state of construction and no cancel
  request: the run returns; no resume batch is sent at the ticks 0 to 10 (a batch needs
  more than 0.1 s since the last-button latch, which starts at 0); a batch of 25 resume
  messages is sent at each of the ticks 11 to 15; the latch moves only at tick 15, when
  0.15 s have passed, and no batch is sent at the ticks 16 to 25. In general a batch is
  sent at tick \<open>t\<close> exactly when \<open>0 < t\<close> and \<open>(t - 1) mod 15 \<ge> 10\<close>, and after \<open>n \<ge> 1\<close>
  ticks the latch is \<open>15 * ((n - 1) div 15)\<close>.
\<close>

theorem resume_batches_throttled:
  assumes "config_ok c" and "CANFD \<notin> flags c" and "\<not> openpilotLongitudinalControl c"
    and "\<forall>i \<in> set ins. \<not> cruise_cancel i \<and> cruise_resume i"
  shows "\<exists>s' outs. run c init_state ins = Inr (s', outs) \<and> length outs = length ins
          \<and> (\<forall>t < length ins. filter is_resume_msg (snd (outs ! t)) =
                (if 0 < t \<and> 10 \<le> (t - 1) mod 15 then replicate 25 (Clu11 RES_ACCEL) else []))
          \<and> (\<forall>t < length ins. t \<le> 10 \<longrightarrow> filter is_resume_msg (snd (outs ! t)) = [])
          \<and> (\<forall>t < length ins. 11 \<le> t \<and> t \<le> 15 \<longrightarrow>
                filter is_resume_msg (snd (outs ! t)) = replicate 25 (Clu11 RES_ACCEL))
          \<and> (\<forall>t < length ins. 16 \<le> t \<and> t \<le> 25 \<longrightarrow> filter is_resume_msg (snd (outs ! t)) = [])
          \<and> (ins \<noteq> [] \<longrightarrow> last_button_frame s' = 15 * ((int (length ins) - 1) div 15))"
proof -
  obtain s' outs where r: "run c init_state ins = Inr (s', outs)" "length outs = length ins"
    "\<forall>t < length ins. filter is_resume_msg (snd (outs ! t)) =
                (if 0 < t \<and> 10 \<le> (t - 1) mod 15 then replicate 25 (Clu11 RES_ACCEL) else [])"
    "ins \<noteq> [] \<longrightarrow> last_button_frame s' = 15 * ((int (length ins) - 1) div 15)"
    using resume_run_from_init[OF assms] by blast
  have a: "filter is_resume_msg (snd (outs ! t)) = []" if "t < length ins" and "t \<le> 10" for t
    using r(3)[rule_format, OF that(1)] range_a[OF that(2)] by simp
  have b: "filter is_resume_msg (snd (outs ! t)) = replicate 25 (Clu11 RES_ACCEL)"
    if "t < length ins" and "11 \<le> t \<and> t \<le> 15" for t
    using r(3)[rule_format, OF that(1)] range_b[of t] that(2) by simp
  have c: "filter is_resume_msg (snd (outs ! t)) = []" if "t < length ins" and "16 \<le> t \<and> t \<le> 25" for t
    using r(3)[rule_format, OF that(1)] range_c[of t] that(2) by simp
  from r a b c show ?thesis by blast
qed

text \<open>
  The claim as stated fails twice: tick 0 sends no resume batch, and tick 11 sends one.
\<close>

theorem resume_batches_throttled_counterexample:
  "map_option (filter is_resume_msg) (sent_at resume_config init_state (replicate 16 resume_in) 0) = Some []
   \<and> map_option (filter is_resume_msg) (sent_at resume_config init_state (replicate 16 resume_in) 11)
       = Some (replicate 25 (Clu11 RES_ACCEL))"
proof -
  have h1: "config_ok resume_config"
    by (simp add: config_ok_def tables_ok_def resume_config_def sample_config_def sample_params_def)
  have h2: "CANFD \<notin> flags resume_config" by (simp add: resume_config_def)
  have h3: "\<not> openpilotLongitudinalControl resume_config"
    by (simp add: resume_config_def sample_config_def)
  have h4: "\<forall>i \<in> set (replicate 16 resume_in). \<not> cruise_cancel i \<and> cruise_resume i"
    by (simp add: resume_in_def sample_in_def)
  obtain s' outs where r: "run resume_config init_state (replicate 16 resume_in) = Inr (s', outs)"
    "\<forall>t < length (replicate 16 resume_in). filter is_resume_msg (snd (outs ! t)) =
                (if 0 < t \<and> 10 \<le> (t - 1) mod 15 then replicate 25 (Clu11 RES_ACCEL) else [])"
    using resume_run_from_init[OF h1 h2 h3 h4] by blast
  from r(2)[rule_format, of 0] have t0: "filter is_resume_msg (snd (outs ! 0)) = []" by simp
  from r(2)[rule_format, of 11]
  have t11: "filter is_resume_msg (snd (outs ! 11)) = replicate 25 (Clu11 RES_ACCEL)" by simp
  from r(1) t0 t11 show ?thesis by (simp add: sent_at_def)
qed

theorem resume_batches_throttled_witness:
  "config_ok resume_config \<and> CANFD \<notin> flags resume_config
   \<and> \<not> openpilotLongitudinalControl resume_config
   \<and> \<not> cruise_cancel resume_in \<and> cruise_resume resume_in
   \<and> (\<exists>s' outs. run resume_config init_state (replicate 26 resume_in) = Inr (s', outs)
         \<and> length outs = 26
         \<and> filter is_resume_msg (snd (outs ! 0)) = []
         \<and> filter is_resume_msg (snd (outs ! 10)) = []
         \<and> filter is_resume_msg (snd (outs ! 11)) = replicate 25 (Clu11 RES_ACCEL)
         \<and> filter is_resume_msg (snd (outs ! 15)) = replicate 25 (Clu11 RES_ACCEL)
         \<and> filter is_resume_msg (snd (outs ! 16)) = []
         \<and> filter is_resume_msg (snd (outs ! 25)) = []
         \<and> last_button_frame s' = 15)"
proof -
  let ?ins = "replicate 26 resume_in"
  have h1: "config_ok resume_config"
    by (simp add: config_ok_def tables_ok_def resume_config_def sample_config_def sample_params_def)
  have h2: "CANFD \<notin> flags resume_config" by (simp add: resume_config_def)
  have h3: "\<not> openpilotLongitudinalControl resume_config"
    by (simp add: resume_config_def sample_config_def)
  have h4': "\<not> cruise_cancel resume_in \<and> cruise_resume resume_in"
    by (simp add: resume_in_def sample_in_def)
  have h4: "\<forall>i \<in> set ?ins. \<not> cruise_cancel i \<and> cruise_resume i"
    using h4' by simp
  obtain s' outs where r: "run resume_config init_state ?ins = Inr (s', outs)"
    "length outs = length ?ins"
    "\<forall>t < length ?ins. t \<le> 10 \<longrightarrow> filter is_resume_msg (snd (outs ! t)) = []"
    "\<forall>t < length ?ins. 11 \<le> t \<and> t \<le> 15 \<longrightarrow>
                filter is_resume_msg (snd (outs ! t)) = replicate 25 (Clu11 RES_ACCEL)"
    "\<forall>t < length ?ins. 16 \<le> t \<and> t \<le> 25 \<longrightarrow> filter is_resume_msg (snd (outs ! t)) = []"
    "?ins \<noteq> [] \<longrightarrow> last_button_frame s' = 15 * ((int (length ?ins) - 1) div 15)"
    using resume_batches_throttled[OF h1 h2 h3 h4] by blast
  from r(2) have len: "length outs = 26" by simp
  from r(3)[rule_format, of 0] have t0: "filter is_resume_msg (snd (outs ! 0)) = []" by simp
  from r(3)[rule_format, of 10] have t10: "filter is_resume_msg (snd (outs ! 10)) = []" by simp
  from r(4)[rule_format, of 11]
  have t11: "filter is_resume_msg (snd (outs ! 11)) = replicate 25 (Clu11 RES_ACCEL)" by simp
  from r(4)[rule_format, of 15]
  have t15: "filter is_resume_msg (snd (outs ! 15)) = replicate 25 (Clu11 RES_ACCEL)" by simp
  from r(5)[rule_format, of 16] have t16: "filter is_resume_msg (snd (outs ! 16)) = []" by simp
  from r(5)[rule_format, of 25] have t25: "filter is_resume_msg (snd (outs ! 25)) = []" by simp
  from r(6) have latch: "last_button_frame s' = 15" by simp
  from h1 h2 h3 h4' r(1) len t0 t10 t11 t15 t16 t25 latch show ?thesis by blast
qed

end
